theory Spec2Isabelle
  imports Main "HOL-Library.Sublist" "HOL-Library.Char_ord" "HOL-Library.List_Lexorder"
    "HOL-Library.Multiset"
begin

section \<open>Strings of the host language\<close>

text \<open>
  File names are modelled as \<open>string\<close> (a list of 8-bit characters). The case maps below
  are JavaScript's \<open>toLowerCase\<close> and \<open>toUpperCase\<close> on ASCII letters; every other
  character is left as it is. The order on strings (\<open>List_Lexorder\<close> over \<open>Char_ord\<close>) is
  the code-unit order that \<open>Array.prototype.sort\<close> uses without a comparator.
\<close>

definition lowerLetters :: string where
  "lowerLetters = ''abcdefghijklmnopqrstuvwxyz''"

definition upperLetters :: string where
  "upperLetters = ''ABCDEFGHIJKLMNOPQRSTUVWXYZ''"

definition isDigit :: "char \<Rightarrow> bool" where
  "isDigit c = (c \<in> set ''0123456789'')"

definition isLower :: "char \<Rightarrow> bool" where
  "isLower c = (c \<in> set lowerLetters)"

definition isUpper :: "char \<Rightarrow> bool" where
  "isUpper c = (c \<in> set upperLetters)"

definition toLowerChar :: "char \<Rightarrow> char" where
  "toLowerChar c = (case map_of (zip upperLetters lowerLetters) c of Some d \<Rightarrow> d | None \<Rightarrow> c)"

definition toUpperChar :: "char \<Rightarrow> char" where
  "toUpperChar c = (case map_of (zip lowerLetters upperLetters) c of Some d \<Rightarrow> d | None \<Rightarrow> c)"

definition toLowerCase :: "string \<Rightarrow> string" where
  "toLowerCase s = map toLowerChar s"

definition toUpperCase :: "string \<Rightarrow> string" where
  "toUpperCase s = map toUpperChar s"

definition startsWith :: "string \<Rightarrow> string \<Rightarrow> bool" where
  "startsWith s p = (take (length p) s = p)"

section \<open>Node's \<open>path\<close> module (POSIX flavour)\<close>

text \<open>
  \<open>path.basename(p)\<close> drops trailing separators and returns what follows the last
  remaining separator. \<open>path.extname(p)\<close> looks at that last component only: it is the
  text from the last dot to the end, and it is empty when the component has no dot, when its
  only dot is its first character, or when the component is \<open>..\<close>.
  \<open>path.basename(p, ext)\<close> removes \<open>ext\<close> from the end of the component, unless
  \<open>ext\<close> is empty or is the whole component; it returns the empty string when \<open>ext\<close>
  is the whole path.
\<close>

definition basename :: "string \<Rightarrow> string" where
  "basename p = rev (takeWhile (\<lambda>c. c \<noteq> CHR ''/'') (dropWhile (\<lambda>c. c = CHR ''/'') (rev p)))"

definition extname :: "string \<Rightarrow> string" where
  "extname p =
     (let comp = basename p;
          tl_rev = takeWhile (\<lambda>c. c \<noteq> CHR ''.'') (rev comp);
          stem = take (length comp - length tl_rev - 1) comp
      in if CHR ''.'' \<notin> set comp \<or> stem = [] \<or> comp = ''..'' then []
         else CHR ''.'' # rev tl_rev)"

definition basename_ext :: "string \<Rightarrow> string \<Rightarrow> string" where
  "basename_ext p ext =
     (let comp = basename p
      in if ext = [] \<or> length p < length ext then comp
         else if ext = p then []
         else if suffix ext comp \<and> ext \<noteq> comp
              then take (length comp - length ext) comp
         else comp)"

section \<open>Configuration\<close>

text \<open>
  \<open>CONFIG.PROGRAM_PATTERN\<close> is \<^verbatim>\<open>/^Chapt(\d+)(Exercise|Fig)(\d+)([a-z]\d*)?$/i\<close>.
  The \<open>i\<close> flag covers the whole expression: the literal \<open>Chapt\<close>, the alternative
  \<open>Exercise|Fig\<close> and the class \<open>[a-z]\<close> all match either case. Every quantifier is
  greedy and no shorter choice can succeed where the greedy one fails (a digit run is always
  followed by a non-digit or the end), so matching is a single left-to-right pass.
\<close>

record pattern_match =
  m_chapter :: string
  m_type :: string
  m_number :: string
  m_variant :: "string option"

definition eat_literal :: "string \<Rightarrow> string \<Rightarrow> (string \<times> string) option" where
  "eat_literal lit s =
     (if length lit \<le> length s \<and> toLowerCase (take (length lit) s) = toLowerCase lit
      then Some (take (length lit) s, drop (length lit) s) else None)"

definition eat_digits :: "string \<Rightarrow> (string \<times> string) option" where
  "eat_digits s =
     (if takeWhile isDigit s = [] then None
      else Some (takeWhile isDigit s, dropWhile isDigit s))"

definition eat_type :: "string \<Rightarrow> (string \<times> string) option" where
  "eat_type s =
     (case eat_literal ''Exercise'' s of
        Some r \<Rightarrow> Some r
      | None \<Rightarrow> eat_literal ''Fig'' s)"

definition eat_variant :: "string \<Rightarrow> string option \<times> string" where
  "eat_variant s =
     (case s of
        [] \<Rightarrow> (None, s)
      | c # r \<Rightarrow>
          if isLower (toLowerChar c)
          then (Some (c # takeWhile isDigit r), dropWhile isDigit r)
          else (None, s))"

text \<open>The pattern without its anchors, matched at the start of \<open>s\<close>: groups and the rest.\<close>

definition match_here :: "string \<Rightarrow> (pattern_match \<times> string) option" where
  "match_here s =
     (case eat_literal ''Chapt'' s of
        None \<Rightarrow> None
      | Some (_, s1) \<Rightarrow>
     (case eat_digits s1 of
        None \<Rightarrow> None
      | Some (chapter, s2) \<Rightarrow>
     (case eat_type s2 of
        None \<Rightarrow> None
      | Some (type, s3) \<Rightarrow>
     (case eat_digits s3 of
        None \<Rightarrow> None
      | Some (number, s4) \<Rightarrow>
          (case eat_variant s4 of
             (variant, rest) \<Rightarrow>
               Some (\<lparr>m_chapter = chapter, m_type = type, m_number = number,
                      m_variant = variant\<rparr>, rest))))))"

definition PROGRAM_PATTERN :: "string \<Rightarrow> pattern_match option" where
  "PROGRAM_PATTERN s =
     (case match_here s of
        Some (m, rest) \<Rightarrow> if rest = [] then Some m else None
      | None \<Rightarrow> None)"

definition SUPPORTED_EXTENSIONS :: "string list" where
  "SUPPORTED_EXTENSIONS = [''.m'', ''.tex'', ''.ipynb'', ''.pdf'', ''.html'', ''.txt'']"

text \<open>
  An entry of \<open>FILE_TYPES\<close>. The presentation fields (emoji, colour, frame height, code
  language) only feed the page templates and are left out.
\<close>

record file_type_config =
  ft_type :: string
  ft_label :: string
  canReadText :: bool

definition FILE_TYPES :: "(string \<times> file_type_config) list" where
  "FILE_TYPES =
     [(''.m'', \<lparr>ft_type = ''matlab'', ft_label = ''MATLAB'', canReadText = True\<rparr>),
      (''.tex'', \<lparr>ft_type = ''latex'', ft_label = ''LaTeX'', canReadText = True\<rparr>),
      (''.ipynb'', \<lparr>ft_type = ''ipynb'', ft_label = ''Jupyter Notebook'', canReadText = False\<rparr>),
      (''.pdf'', \<lparr>ft_type = ''pdf'', ft_label = ''PDF Document'', canReadText = False\<rparr>),
      (''.html'', \<lparr>ft_type = ''html'', ft_label = ''HTML Page'', canReadText = True\<rparr>),
      (''.txt'', \<lparr>ft_type = ''text'', ft_label = ''Text File'', canReadText = True\<rparr>)]"

section \<open>Classification\<close>

definition getFileTypeConfig :: "string \<Rightarrow> file_type_config option" where
  "getFileTypeConfig filename = map_of FILE_TYPES (toLowerCase (extname filename))"

text \<open>
  \<open>parseInt(s, 10)\<close> on the strings that reach it here: the longest prefix of decimal
  digits, or \<open>NaN\<close> (\<open>None\<close>) when the string does not start with a digit. The value
  is the exact integer; JavaScript rounds to a double, which is the same number below
  \<open>2^53\<close>.
\<close>

definition digitValue :: "char \<Rightarrow> nat" where
  "digitValue c = of_char c - 48"

definition parseInt :: "string \<Rightarrow> int option" where
  "parseInt s =
     (if takeWhile isDigit s = [] then None
      else Some (int (foldl (\<lambda>n c. 10 * n + digitValue c) 0 (takeWhile isDigit s))))"

text \<open>
  The object \<open>extractProgramInfo\<close> returns. Its field \<open>chapter\<close> (the name of the
  documentation directory of the chapter) is called \<open>chapterDir\<close> here, and its field
  \<open>type\<close> is \<open>ptype\<close>.
\<close>

record program_info =
  programId :: string
  chapterDir :: string
  chapterNum :: string
  ptype :: string
  number :: string
  variant :: string
  displayName :: string
  chapterDisplay :: "int option"
  isUtility :: bool

definition extractProgramInfo :: "string \<Rightarrow> program_info option" where
  "extractProgramInfo filename =
     (let baseName = basename_ext filename (extname filename)
      in case PROGRAM_PATTERN baseName of
           None \<Rightarrow>
             if toLowerCase (extname filename) \<notin> set SUPPORTED_EXTENSIONS then None
             else Some \<lparr>programId = baseName, chapterDir = ''utilities'',
                        chapterNum = ''utilities'', ptype = ''Utility'', number = [],
                        variant = [], displayName = baseName, chapterDisplay = Some 99,
                        isUtility = True\<rparr>
         | Some m \<Rightarrow>
             Some \<lparr>programId = ''Chapt'' @ m_chapter m @ m_type m @ m_number m
                                 @ (case m_variant m of None \<Rightarrow> [] | Some v \<Rightarrow> v),
                    chapterDir = ''chapter'' @ m_chapter m,
                    chapterNum = m_chapter m,
                    ptype = m_type m,
                    number = m_number m,
                    variant = (case m_variant m of None \<Rightarrow> [] | Some v \<Rightarrow> v),
                    displayName = ''Chapter '' @ m_chapter m @ '' - '' @ m_type m @ '' ''
                                  @ m_number m
                                  @ (case m_variant m of None \<Rightarrow> [] | Some v \<Rightarrow> toUpperCase v),
                    chapterDisplay = parseInt (m_chapter m),
                    isUtility = False\<rparr>)"

section \<open>Containers of the host language\<close>

text \<open>
  A JavaScript \<open>Map\<close> iterates in insertion order, and \<open>set\<close> on a key that is present
  keeps the key's position: an association list. A \<open>Set\<close> is a list without duplicates,
  in insertion order.
\<close>

definition map_has :: "'k \<Rightarrow> ('k \<times> 'v) list \<Rightarrow> bool" where
  "map_has k m = (map_of m k \<noteq> None)"

fun map_set :: "'k \<Rightarrow> 'v \<Rightarrow> ('k \<times> 'v) list \<Rightarrow> ('k \<times> 'v) list" where
  "map_set k v [] = [(k, v)]"
| "map_set k v (e # m) = (if fst e = k then (k, v) # m else e # map_set k v m)"

definition map_keys :: "('k \<times> 'v) list \<Rightarrow> 'k list" where
  "map_keys m = map fst m"

definition set_add :: "'a \<Rightarrow> 'a list \<Rightarrow> 'a list" where
  "set_add x s = (if x \<in> set s then s else s @ [x])"

text \<open>
  \<open>Array.prototype.sort(compareFn)\<close> is stable, and a comparator result of \<open>NaN\<close>
  (\<open>None\<close>) counts as \<open>+0\<close>. The model is insertion sort; where the comparator orders
  the elements consistently, every stable sort returns this list. Where it does not (the
  chapter comparator of the sidebar on three or more keys one of which is \<open>utilities\<close>),
  the language leaves the order to the implementation, and the engine's order may differ
  from the one computed here; nothing below is stated about such inputs except at two keys,
  where the comparator is consistent.
\<close>

definition compare_value :: "int option \<Rightarrow> int" where
  "compare_value v = (case v of None \<Rightarrow> 0 | Some n \<Rightarrow> n)"

fun js_insert :: "('a \<Rightarrow> 'a \<Rightarrow> int option) \<Rightarrow> 'a \<Rightarrow> 'a list \<Rightarrow> 'a list" where
  "js_insert cmp x [] = [x]"
| "js_insert cmp x (y # ys) =
     (if compare_value (cmp x y) \<le> 0 then x # y # ys else y # js_insert cmp x ys)"

definition js_sort :: "('a \<Rightarrow> 'a \<Rightarrow> int option) \<Rightarrow> 'a list \<Rightarrow> 'a list" where
  "js_sort cmp xs = foldr (js_insert cmp) xs []"

text \<open>Subtraction of two numbers either of which may be \<open>NaN\<close>.\<close>

definition num_minus :: "int option \<Rightarrow> int option \<Rightarrow> int option" where
  "num_minus a b =
     (case a of None \<Rightarrow> None | Some x \<Rightarrow> (case b of None \<Rightarrow> None | Some y \<Rightarrow> Some (x - y)))"

fun indexOf_from :: "nat \<Rightarrow> 'a list \<Rightarrow> 'a \<Rightarrow> int" where
  "indexOf_from i [] x = - 1"
| "indexOf_from i (y # ys) x = (if y = x then int i else indexOf_from (Suc i) ys x)"

definition indexOf :: "'a list \<Rightarrow> 'a \<Rightarrow> int" where
  "indexOf xs x = indexOf_from 0 xs x"

section \<open>The grouping pass of \<open>processAllPrograms\<close>\<close>

record member_file =
  filename :: string
  filePath :: string
  config :: file_type_config

record program_group =
  programInfo :: program_info
  files :: "member_file list"

datatype skip_reason = UnsupportedExtension | UnknownType

text \<open>
  The run statistics. \<open>console\<close> holds the \<open>Skipped (...)\<close> lines the grouping loop
  prints, one per skipped file, in order.
\<close>

record stats =
  processed :: nat
  skipped :: nat
  utilities :: nat
  byChapter :: "(string \<times> string list) list"
  byType :: "(string \<times> nat) list"
  programFiles :: "(string \<times> program_group) list"
  console :: "(skip_reason \<times> string) list"

definition initialStats :: stats where
  "initialStats =
     \<lparr>processed = 0, skipped = 0, utilities = 0, byChapter = [], byType = [],
      programFiles = [], console = []\<rparr>"

definition isSupported :: "string \<Rightarrow> bool" where
  "isSupported f = (toLowerCase (extname f) \<in> set SUPPORTED_EXTENSIONS)"

definition supportedFiles :: "string list \<Rightarrow> string list" where
  "supportedFiles allFiles = filter isSupported allFiles"

definition addToGroup ::
  "program_info \<Rightarrow> member_file \<Rightarrow> (string \<times> program_group) list
     \<Rightarrow> (string \<times> program_group) list" where
  "addToGroup info mf pf =
     (let pf1 = (if \<not> map_has (programId info) pf
                 then map_set (programId info) \<lparr>programInfo = info, files = []\<rparr> pf
                 else pf)
      in case map_of pf1 (programId info) of
           None \<Rightarrow> pf1
         | Some g \<Rightarrow> map_set (programId info) (g\<lparr>files := files g @ [mf]\<rparr>) pf1)"

definition addToChapter ::
  "string \<Rightarrow> string \<Rightarrow> (string \<times> string list) list \<Rightarrow> (string \<times> string list) list" where
  "addToChapter chNum pid bc =
     (let bc1 = (if \<not> map_has chNum bc then map_set chNum [] bc else bc)
      in case map_of bc1 chNum of
           None \<Rightarrow> bc1
         | Some s \<Rightarrow> map_set chNum (set_add pid s) bc1)"

definition countType :: "string \<Rightarrow> (string \<times> nat) list \<Rightarrow> (string \<times> nat) list" where
  "countType ty bt =
     (let bt1 = (if \<not> map_has ty bt then map_set ty 0 bt else bt)
      in case map_of bt1 ty of
           None \<Rightarrow> bt1
         | Some n \<Rightarrow> map_set ty (n + 1) bt1)"

text \<open>The body of the first \<open>forEach\<close>: one supported file.\<close>

definition collectFile :: "stats \<Rightarrow> string \<Rightarrow> stats" where
  "collectFile st fp =
     (let fname = basename fp
      in case extractProgramInfo fname of
           None \<Rightarrow>
             st\<lparr>skipped := skipped st + 1,
                console := console st @ [(UnsupportedExtension, fname)]\<rparr>
         | Some info \<Rightarrow>
            (case getFileTypeConfig fname of
               None \<Rightarrow>
                 st\<lparr>skipped := skipped st + 1,
                    console := console st @ [(UnknownType, fname)]\<rparr>
             | Some cfg \<Rightarrow>
                 st\<lparr>utilities := (if isUtility info then utilities st + 1 else utilities st),
                    programFiles :=
                      addToGroup info \<lparr>filename = fname, filePath = fp, config = cfg\<rparr>
                        (programFiles st),
                    byChapter := addToChapter (chapterNum info) (programId info) (byChapter st),
                    byType := countType (ft_type cfg) (byType st)\<rparr>))"

text \<open>
  The scan result \<open>allFiles\<close> is filtered to the supported extensions, then every
  remaining file goes through the loop body. (With no supported file the function returns
  before the loop; the statistics are then the initial ones, as here.)
\<close>

definition groupingPass :: "string list \<Rightarrow> stats" where
  "groupingPass allFiles = foldl collectFile initialStats (supportedFiles allFiles)"

text \<open>
  Notions used to state what the grouping pass computes: the base name of a scanned path
  (the file name without its extension, as \<open>extractProgramInfo\<close> computes it), the
  program id the classifier gives the path, the member record the loop stores for it, and
  the members of the group with a given key.
\<close>

definition baseNameOf :: "string \<Rightarrow> string" where
  "baseNameOf fp = basename_ext (basename fp) (extname (basename fp))"

definition programIdOf :: "string \<Rightarrow> string option" where
  "programIdOf fp = map_option programId (extractProgramInfo (basename fp))"

definition memberOf :: "string \<Rightarrow> member_file" where
  "memberOf fp =
     \<lparr>filename = basename fp, filePath = fp,
      config = (case getFileTypeConfig (basename fp) of
                  Some cfg \<Rightarrow> cfg
                | None \<Rightarrow> \<lparr>ft_type = [], ft_label = [], canReadText = False\<rparr>)\<rparr>"

definition membersOf :: "(string \<times> program_group) list \<Rightarrow> string \<Rightarrow> member_file list" where
  "membersOf pf pid = (case map_of pf pid of None \<Rightarrow> [] | Some g \<Rightarrow> files g)"

definition groupedPaths :: "stats \<Rightarrow> string list" where
  "groupedPaths st = concat (map (\<lambda>e. map filePath (files (snd e))) (programFiles st))"

section \<open>Output planning and the index page\<close>

text \<open>
  Paths are lists of segments below the site root (the parent of the script's directory):
  \<open>CONFIG.DOCS_OUTPUT_DIR\<close> is \<open>docs\<close>, \<open>CONFIG.STATIC_OUTPUT_DIR\<close> is
  \<open>static/programs\<close>, and the sidebar file is \<open>docs/../sidebars.js\<close>, that is
  \<open>sidebars.js\<close>. \<open>CONFIG.INBOX_DIR\<close> is the resolved \<open>--source\<close> directory when the
  option is given (\<open>Some\<close> of its path) and \<open>INBOX\<close> otherwise.
\<close>

type_synonym path = "string list"

definition DOCS_OUTPUT_DIR :: path where
  "DOCS_OUTPUT_DIR = [''docs'']"

definition STATIC_OUTPUT_DIR :: path where
  "STATIC_OUTPUT_DIR = [''static'', ''programs'']"

definition INBOX_DIR :: "path option \<Rightarrow> path" where
  "INBOX_DIR source = (case source of Some p \<Rightarrow> p | None \<Rightarrow> [''INBOX''])"

definition sidebarPath :: path where
  "sidebarPath = [''sidebars.js'']"

text \<open>Where the second pass writes the pages and copies of one group.\<close>

definition programDocsDir :: "program_info \<Rightarrow> path" where
  "programDocsDir info = DOCS_OUTPUT_DIR @ [chapterDir info, programId info]"

definition programStaticDir :: "file_type_config \<Rightarrow> program_info \<Rightarrow> path" where
  "programStaticDir cfg info = STATIC_OUTPUT_DIR @ [ft_type cfg, programId info]"

definition detailFileName :: "program_info \<Rightarrow> file_type_config \<Rightarrow> string" where
  "detailFileName info cfg = programId info @ ''_'' @ ft_type cfg @ ''.mdx''"

definition indexPath :: "program_info \<Rightarrow> path" where
  "indexPath info = programDocsDir info @ [''index.mdx'']"

text \<open>
  An element of \<open>filesList\<close>, pushed for every member whose copy succeeded, in the order
  of the group's \<open>files\<close>.
\<close>

record file_entry =
  fe_filename :: string
  fileType :: string
  staticPath :: string
  fe_config :: file_type_config

definition fileEntryOf :: "program_info \<Rightarrow> member_file \<Rightarrow> file_entry" where
  "fileEntryOf info mf =
     \<lparr>fe_filename = filename mf,
      fileType = ft_type (config mf),
      staticPath = ''/programs/'' @ ft_type (config mf) @ ''/'' @ programId info @ ''/''
                   @ filename mf,
      fe_config = config mf\<rparr>"

definition typeOrder :: "string list" where
  "typeOrder = [''matlab'', ''latex'', ''pdf'', ''html'', ''ipynb'', ''text'']"

definition typeRank :: "file_entry \<Rightarrow> int" where
  "typeRank a = indexOf typeOrder (fileType a)"

text \<open>
  The first statement of \<open>generateIndexPage\<close>:
  \<^verbatim>\<open>filesList.sort((a, b) => typeOrder.indexOf(a.fileType) - typeOrder.indexOf(b.fileType))\<close>.
  The cards of the index page follow the sorted list.
\<close>

definition generateIndexPage_order :: "file_entry list \<Rightarrow> file_entry list" where
  "generateIndexPage_order filesList =
     js_sort (\<lambda>a b. Some (typeRank a - typeRank b)) filesList"

text \<open>The index page order of a group all of whose members were copied.\<close>

definition indexPageFiles :: "program_group \<Rightarrow> string list" where
  "indexPageFiles grp =
     map fe_filename
       (generateIndexPage_order (map (fileEntryOf (programInfo grp)) (files grp)))"

section \<open>The sidebar\<close>

definition CHAPTER_NAMES :: "(string \<times> string) list" where
  "CHAPTER_NAMES =
     [(''1'', ''Introduction to Quantum Mechanics''),
      (''2'', ''Schr'' @ [CHR 0xF6] @ ''dinger Equation''),
      (''3'', ''Quantum Wells and Barriers''),
      (''4'', ''Harmonic Oscillator''),
      (''5'', ''Tunneling and Resonance''),
      (''6'', ''Density of States''),
      (''7'', ''Band Structure''),
      (''8'', ''Perturbation Theory''),
      (''9'', ''Statistical Mechanics''),
      (''utilities'', ''Utility Functions'')]"

definition getChapterName :: "string \<Rightarrow> string" where
  "getChapterName chNum =
     (case map_of CHAPTER_NAMES chNum of Some n \<Rightarrow> n | None \<Rightarrow> ''Chapter '' @ chNum)"

text \<open>
  A number inside a template literal: decimal digits, or \<open>NaN\<close>. (JavaScript switches
  to exponent notation from \<open>10^21\<close> on; chapter numbers of that size are not considered.)
\<close>

fun showNat :: "nat \<Rightarrow> string" where
  "showNat n =
     (if n < 10 then [char_of (48 + n)] else showNat (n div 10) @ [char_of (48 + n mod 10)])"

definition showNumber :: "int option \<Rightarrow> string" where
  "showNumber v =
     (case v of
        None \<Rightarrow> ''NaN''
      | Some i \<Rightarrow> if i < 0 then CHR ''-'' # showNat (nat (- i)) else showNat (nat i))"

text \<open>
  The label pattern of \<open>updateSidebar\<close> (and of \<open>extractLabelFromProgramId\<close>) is the
  program pattern without anchors: the leftmost position where it matches.
\<close>

fun search_pattern :: "string \<Rightarrow> pattern_match option" where
  "search_pattern [] = None"
| "search_pattern (c # s) =
     (case match_here (c # s) of
        Some (m, _) \<Rightarrow> Some m
      | None \<Rightarrow> search_pattern s)"

definition extractLabelFromProgramId :: "string \<Rightarrow> string" where
  "extractLabelFromProgramId pid =
     (case search_pattern pid of
        Some m \<Rightarrow> m_type m @ '' '' @ m_number m
                  @ (case m_variant m of None \<Rightarrow> [] | Some v \<Rightarrow> toUpperCase v)
      | None \<Rightarrow> pid)"

record sidebar_doc =
  doc_id :: string
  doc_label :: string

record sidebar_category =
  cat_label :: string
  collapsed :: bool
  cat_items :: "sidebar_doc list"

text \<open>
  The \<open>categories\<close> array of \<open>updateSidebar\<close>: the chapter keys sorted with the
  comparator \<^verbatim>\<open>(a, b) => parseInt(a) - parseInt(b)\<close>, the programs of a chapter in the
  default (code-unit) order. The generated file embeds this array and, in a header comment,
  the time of the run.
\<close>

definition sidebarCategories :: "(string \<times> string list) list \<Rightarrow> sidebar_category list" where
  "sidebarCategories bc =
     map (\<lambda>chNum.
            \<lparr>cat_label = ''Ch '' @ showNumber (parseInt chNum) @ '': '' @ getChapterName chNum,
             collapsed = True,
             cat_items =
               map (\<lambda>pid. \<lparr>doc_id = ''chapter'' @ chNum @ ''/'' @ pid @ ''/index'',
                            doc_label = extractLabelFromProgramId pid\<rparr>)
                 (sort (case map_of bc chNum of Some s \<Rightarrow> s | None \<Rightarrow> []))\<rparr>)
       (js_sort (\<lambda>a b. num_minus (parseInt a) (parseInt b)) (map_keys bc))"

text \<open>
  The comparator of the run summary in \<open>processAllPrograms\<close> (\<open>sortChapterKeys\<close> in the
  helpers module), which the sidebar does not use.
\<close>

definition sortChapterKeys :: "string \<Rightarrow> string \<Rightarrow> int option" where
  "sortChapterKeys a b =
     (if a = ''utilities'' then Some 1
      else if b = ''utilities'' then Some (- 1)
      else num_minus (parseInt a) (parseInt b))"

section \<open>The file tree and \<open>cleanGenerated\<close>\<close>

text \<open>
  The file tree is a list of entries, each a path with what is stored there.
  \<open>readdirSync\<close> lists the names directly below a directory; \<open>rmSync\<close> with
  \<open>recursive\<close> and \<open>force\<close> removes a path and everything below it and accepts a path
  that does not exist.
\<close>

datatype entry = Dir | File string

type_synonym filesystem = "(path \<times> entry) list"

definition existsSync :: "path \<Rightarrow> filesystem \<Rightarrow> bool" where
  "existsSync p fs = (p \<in> set (map fst fs))"

definition readdirSync :: "path \<Rightarrow> filesystem \<Rightarrow> string list" where
  "readdirSync d fs =
     remdups (map (\<lambda>e. last (fst e)) (filter (\<lambda>e. fst e \<noteq> [] \<and> butlast (fst e) = d) fs))"

definition rmSync :: "path \<Rightarrow> filesystem \<Rightarrow> filesystem" where
  "rmSync p fs = filter (\<lambda>e. \<not> prefix p (fst e)) fs"

text \<open>The state threaded through \<open>cleanGenerated\<close>: the tree and \<open>cleanedCount\<close>.\<close>

definition cleanItem :: "filesystem \<times> nat \<Rightarrow> string \<Rightarrow> filesystem \<times> nat" where
  "cleanItem s item =
     (if startsWith item ''chapter''
      then (rmSync (DOCS_OUTPUT_DIR @ [item]) (fst s), snd s + 1)
      else s)"

definition cleanGenerated :: "filesystem \<Rightarrow> filesystem \<times> nat" where
  "cleanGenerated fs =
     (let s1 = (if existsSync DOCS_OUTPUT_DIR fs
                then foldl cleanItem (fs, 0) (readdirSync DOCS_OUTPUT_DIR fs)
                else (fs, 0))
      in if existsSync STATIC_OUTPUT_DIR (fst s1)
         then (rmSync STATIC_OUTPUT_DIR (fst s1), snd s1 + 1)
         else s1)"

text \<open>
  The paths \<open>cleanGenerated\<close> is aimed at: the static root and what lies below it, and
  every entry of the documentation directory whose name starts with \<open>chapter\<close>, with what
  lies below it.
\<close>

definition cleanTarget :: "path \<Rightarrow> bool" where
  "cleanTarget p =
     (prefix STATIC_OUTPUT_DIR p
      \<or> (prefix DOCS_OUTPUT_DIR p
          \<and> (case drop (length DOCS_OUTPUT_DIR) p of
                [] \<Rightarrow> False
              | item # _ \<Rightarrow> startsWith item ''chapter'')))"

section \<open>Files that pass the extension filter are always classified\<close>

lemma dropWhile_none: "\<forall>c \<in> set t. \<not> P c \<Longrightarrow> dropWhile P t = t"
  by (cases t) auto

lemma basename_idem: "basename (basename p) = basename p"
proof -
  define t where "t = takeWhile (\<lambda>c. c \<noteq> CHR ''/'') (dropWhile (\<lambda>c. c = CHR ''/'') (rev p))"
  have ns: "\<forall>c \<in> set t. c \<noteq> CHR ''/''" unfolding t_def by (auto dest: set_takeWhileD)
  have d: "dropWhile (\<lambda>c. c = CHR ''/'') t = t"
    using ns by (intro dropWhile_none) simp
  have t: "takeWhile (\<lambda>c. c \<noteq> CHR ''/'') t = t"
    using ns by (simp add: takeWhile_eq_all_conv)
  have "basename p = rev t" by (simp add: basename_def t_def)
  moreover have "basename (rev t) = rev t" by (simp add: basename_def d t)
  ultimately show ?thesis by simp
qed

lemma extname_basename: "extname (basename p) = extname p"
  unfolding extname_def by (simp add: basename_idem)

lemma isSupported_basename: "isSupported (basename p) = isSupported p"
  unfolding isSupported_def by (simp add: extname_basename)

lemma map_of_FILE_TYPES_None: "map_of FILE_TYPES e = None \<longleftrightarrow> e \<notin> set SUPPORTED_EXTENSIONS"
  unfolding FILE_TYPES_def SUPPORTED_EXTENSIONS_def by simp

lemma getFileTypeConfig_None_iff:
  "getFileTypeConfig fn = None \<longleftrightarrow> \<not> isSupported fn"
  unfolding getFileTypeConfig_def isSupported_def by (rule map_of_FILE_TYPES_None)

lemma extractProgramInfo_None_iff:
  "extractProgramInfo fn = None \<longleftrightarrow>
     PROGRAM_PATTERN (basename_ext fn (extname fn)) = None \<and> \<not> isSupported fn"
  unfolding extractProgramInfo_def isSupported_def Let_def
  by (auto split: option.splits)

lemma supported_classified:
  assumes "isSupported fp"
  shows "\<exists>info cfg. extractProgramInfo (basename fp) = Some info
           \<and> getFileTypeConfig (basename fp) = Some cfg"
proof -
  from assms have s: "isSupported (basename fp)" by (simp add: isSupported_basename)
  have "extractProgramInfo (basename fp) \<noteq> None"
    using s by (simp add: extractProgramInfo_None_iff)
  moreover have "getFileTypeConfig (basename fp) \<noteq> None"
    using s by (simp add: getFileTypeConfig_None_iff)
  ultimately show ?thesis by auto
qed

lemma collectFile_classified:
  assumes i: "extractProgramInfo (basename fp) = Some info"
    and c: "getFileTypeConfig (basename fp) = Some cfg"
  shows "collectFile st fp =
       st\<lparr>utilities := (if isUtility info then utilities st + 1 else utilities st),
          programFiles := addToGroup info (memberOf fp) (programFiles st),
          byChapter := addToChapter (chapterNum info) (programId info) (byChapter st),
          byType := countType (ft_type cfg) (byType st)\<rparr>"
  unfolding collectFile_def Let_def memberOf_def by (simp only: i c option.case)

lemma collectFile_skipped:
  assumes "isSupported fp"
  shows "skipped (collectFile st fp) = skipped st \<and> console (collectFile st fp) = console st"
proof -
  from supported_classified [OF assms] obtain info cfg
    where "extractProgramInfo (basename fp) = Some info" "getFileTypeConfig (basename fp) = Some cfg"
    by blast
  then show ?thesis by (simp add: collectFile_classified)
qed

lemma foldl_collect_skipped:
  "\<forall>f \<in> set fs. isSupported f \<Longrightarrow>
     skipped (foldl collectFile st fs) = skipped st \<and> console (foldl collectFile st fs) = console st"
  by (induction fs arbitrary: st) (simp_all add: collectFile_skipped)

lemma groupingPass_skipped: "skipped (groupingPass allFiles) = 0 \<and> console (groupingPass allFiles) = []"
  using foldl_collect_skipped [of "supportedFiles allFiles" initialStats]
  by (simp add: groupingPass_def supportedFiles_def initialStats_def)

text \<open>
  C9. \<open>extractProgramInfo\<close> returns null exactly when the base name does not match the
  pattern and the lower-cased extension is unsupported; \<open>getFileTypeConfig\<close> returns null
  exactly for unsupported extensions. Every path that passed the extension filter is
  therefore classified and typed, so neither skip branch of the grouping loop is taken:
  after the pass the skipped count is zero and no \<open>Skipped\<close> line was printed.
\<close>

theorem skip_branches_unreachable:
  "(extractProgramInfo fn = None \<longleftrightarrow>
      PROGRAM_PATTERN (basename_ext fn (extname fn)) = None
      \<and> toLowerCase (extname fn) \<notin> set SUPPORTED_EXTENSIONS)
   \<and> (getFileTypeConfig fn = None \<longleftrightarrow> toLowerCase (extname fn) \<notin> set SUPPORTED_EXTENSIONS)
   \<and> (\<forall>fp \<in> set (supportedFiles allFiles).
         extractProgramInfo (basename fp) \<noteq> None \<and> getFileTypeConfig (basename fp) \<noteq> None)
   \<and> skipped (groupingPass allFiles) = 0
   \<and> console (groupingPass allFiles) = []"
proof (intro conjI)
  show "extractProgramInfo fn = None \<longleftrightarrow>
      PROGRAM_PATTERN (basename_ext fn (extname fn)) = None
      \<and> toLowerCase (extname fn) \<notin> set SUPPORTED_EXTENSIONS"
    using extractProgramInfo_None_iff [of fn] by (simp add: isSupported_def)
  show "getFileTypeConfig fn = None \<longleftrightarrow> toLowerCase (extname fn) \<notin> set SUPPORTED_EXTENSIONS"
    using getFileTypeConfig_None_iff [of fn] by (simp add: isSupported_def)
  show "\<forall>fp \<in> set (supportedFiles allFiles).
         extractProgramInfo (basename fp) \<noteq> None \<and> getFileTypeConfig (basename fp) \<noteq> None"
  proof
    fix fp assume "fp \<in> set (supportedFiles allFiles)"
    then have "isSupported fp" by (simp add: supportedFiles_def)
    from supported_classified [OF this] show
      "extractProgramInfo (basename fp) \<noteq> None \<and> getFileTypeConfig (basename fp) \<noteq> None"
      by auto
  qed
  show "skipped (groupingPass allFiles) = 0" by (simp add: groupingPass_skipped)
  show "console (groupingPass allFiles) = []" by (simp add: groupingPass_skipped)
qed

theorem skip_branches_unreachable_witness:
  "''sub/Chapt1Exercise8.M'' \<in> set (supportedFiles [''sub/Chapt1Exercise8.M'', ''notes.docx''])
   \<and> extractProgramInfo (basename ''sub/Chapt1Exercise8.M'') \<noteq> None
   \<and> getFileTypeConfig (basename ''sub/Chapt1Exercise8.M'') \<noteq> None
   \<and> extractProgramInfo ''notes.docx'' = None
   \<and> getFileTypeConfig ''notes.docx'' = None
   \<and> skipped (groupingPass [''sub/Chapt1Exercise8.M'', ''notes.docx'']) = 0
   \<and> console (groupingPass [''sub/Chapt1Exercise8.M'', ''notes.docx'']) = []"
proof -
  have h: "''sub/Chapt1Exercise8.M'' \<in> set (supportedFiles [''sub/Chapt1Exercise8.M'', ''notes.docx''])"
    by code_simp
  have n: "PROGRAM_PATTERN (basename_ext ''notes.docx'' (extname ''notes.docx'')) = None
      \<and> toLowerCase (extname ''notes.docx'') \<notin> set SUPPORTED_EXTENSIONS"
    by code_simp
  show ?thesis
    using h n skip_branches_unreachable [of "''notes.docx''" "[''sub/Chapt1Exercise8.M'', ''notes.docx'']"]
    by blast
qed

section \<open>What the grouping pass builds\<close>

lemma map_of_map_set: "map_of (map_set k v m) = (map_of m)(k \<mapsto> v)"
  by (induction m) (auto simp: fun_eq_iff)

lemma keys_map_set:
  "map fst (map_set k v m) = (if k \<in> set (map fst m) then map fst m else map fst m @ [k])"
  by (induction m) auto

lemma map_has_keys: "map_has k m \<longleftrightarrow> k \<in> set (map fst m)"
  unfolding map_has_def by (simp add: map_of_eq_None_iff)

lemma keys_addToGroup:
  "map fst (addToGroup info mf pf) =
     (if programId info \<in> set (map fst pf) then map fst pf else map fst pf @ [programId info])"
  unfolding addToGroup_def Let_def
  by (simp add: map_has_keys map_of_map_set keys_map_set split: option.splits)

lemma membersOf_addToGroup:
  "membersOf (addToGroup info mf pf) pid =
     (if pid = programId info then membersOf pf pid @ [mf] else membersOf pf pid)"
  unfolding addToGroup_def Let_def membersOf_def map_has_def
  by (auto simp: map_of_map_set split: option.splits)

lemma set_map_set: "e \<in> set (map_set k v m) \<Longrightarrow> e = (k, v) \<or> e \<in> set m"
  by (induction m) (auto split: if_splits)

lemma info_addToGroup:
  assumes inv: "\<forall>e \<in> set pf. programId (programInfo (snd e)) = fst e"
  shows "\<forall>e \<in> set (addToGroup info mf pf). programId (programInfo (snd e)) = fst e"
proof (cases "map_of pf (programId info)")
  case None
  then have eq: "addToGroup info mf pf =
      map_set (programId info) \<lparr>programInfo = info, files = [mf]\<rparr>
        (map_set (programId info) \<lparr>programInfo = info, files = []\<rparr> pf)"
    by (simp add: addToGroup_def map_has_def map_of_map_set)
  show ?thesis
  proof
    fix e assume "e \<in> set (addToGroup info mf pf)"
    then have "e = (programId info, \<lparr>programInfo = info, files = [mf]\<rparr>)
             \<or> e = (programId info, \<lparr>programInfo = info, files = []\<rparr>) \<or> e \<in> set pf"
      unfolding eq by (blast dest: set_map_set)
    then show "programId (programInfo (snd e)) = fst e" using inv by auto
  qed
next
  case (Some g)
  then have eq: "addToGroup info mf pf = map_set (programId info) (g\<lparr>files := files g @ [mf]\<rparr>) pf"
    by (simp add: addToGroup_def map_has_def)
  from Some have "(programId info, g) \<in> set pf" by (rule map_of_SomeD)
  with inv have g: "programId (programInfo g) = programId info" by fastforce
  show ?thesis
  proof
    fix e assume "e \<in> set (addToGroup info mf pf)"
    then have "e = (programId info, g\<lparr>files := files g @ [mf]\<rparr>) \<or> e \<in> set pf"
      unfolding eq by (blast dest: set_map_set)
    then show "programId (programInfo (snd e)) = fst e" using inv g by auto
  qed
qed

lemma collectFile_programFiles:
  assumes "isSupported fp"
  shows "\<exists>info. extractProgramInfo (basename fp) = Some info \<and> programIdOf fp = Some (programId info)
           \<and> programFiles (collectFile st fp) = addToGroup info (memberOf fp) (programFiles st)"
proof -
  from supported_classified [OF assms] obtain info cfg
    where ic: "extractProgramInfo (basename fp) = Some info" "getFileTypeConfig (basename fp) = Some cfg"
    by blast
  then show ?thesis by (simp add: collectFile_classified programIdOf_def)
qed

lemma foldl_collect_keys:
  "\<forall>f \<in> set fs. isSupported f \<Longrightarrow>
     set (map fst (programFiles (foldl collectFile st fs)))
       = set (map fst (programFiles st)) \<union> {pid. \<exists>f \<in> set fs. programIdOf f = Some pid}"
proof (induction fs arbitrary: st)
  case Nil
  then show ?case by simp
next
  case (Cons x xs)
  then have sx: "isSupported x" and sxs: "\<forall>f \<in> set xs. isSupported f" by simp_all
  from collectFile_programFiles [OF sx, of st] obtain info
    where p: "programIdOf x = Some (programId info)"
      and pf: "programFiles (collectFile st x) = addToGroup info (memberOf x) (programFiles st)"
    by blast
  have "set (map fst (programFiles (collectFile st x)))
          = insert (programId info) (set (map fst (programFiles st)))"
    unfolding pf keys_addToGroup by auto
  with Cons.IH [OF sxs, of "collectFile st x"] p show ?case by auto
qed

lemma foldl_collect_distinct:
  "\<forall>f \<in> set fs. isSupported f \<Longrightarrow> distinct (map fst (programFiles st)) \<Longrightarrow>
     distinct (map fst (programFiles (foldl collectFile st fs)))"
proof (induction fs arbitrary: st)
  case Nil
  then show ?case by simp
next
  case (Cons x xs)
  then have sx: "isSupported x" and sxs: "\<forall>f \<in> set xs. isSupported f" by simp_all
  from collectFile_programFiles [OF sx, of st] obtain info
    where pf: "programFiles (collectFile st x) = addToGroup info (memberOf x) (programFiles st)"
    by blast
  have "distinct (map fst (programFiles (collectFile st x)))"
    unfolding pf keys_addToGroup using Cons.prems(2) by simp
  with Cons.IH [OF sxs] show ?case by simp
qed

lemma foldl_collect_members:
  "\<forall>f \<in> set fs. isSupported f \<Longrightarrow>
     membersOf (programFiles (foldl collectFile st fs)) pid
       = membersOf (programFiles st) pid @ map memberOf (filter (\<lambda>f. programIdOf f = Some pid) fs)"
proof (induction fs arbitrary: st)
  case Nil
  then show ?case by simp
next
  case (Cons x xs)
  then have sx: "isSupported x" and sxs: "\<forall>f \<in> set xs. isSupported f" by simp_all
  from collectFile_programFiles [OF sx, of st] obtain info
    where p: "programIdOf x = Some (programId info)"
      and pf: "programFiles (collectFile st x) = addToGroup info (memberOf x) (programFiles st)"
    by blast
  have "membersOf (programFiles (collectFile st x)) pid
          = membersOf (programFiles st) pid @ map memberOf (filter (\<lambda>f. programIdOf f = Some pid) [x])"
    unfolding pf membersOf_addToGroup using p by auto
  with Cons.IH [OF sxs, of "collectFile st x"] show ?case by simp
qed

lemma foldl_collect_info:
  "\<forall>f \<in> set fs. isSupported f \<Longrightarrow>
   \<forall>e \<in> set (programFiles st). programId (programInfo (snd e)) = fst e \<Longrightarrow>
   \<forall>e \<in> set (programFiles (foldl collectFile st fs)). programId (programInfo (snd e)) = fst e"
proof (induction fs arbitrary: st)
  case Nil
  then show ?case by simp
next
  case (Cons x xs)
  then have sx: "isSupported x" and sxs: "\<forall>f \<in> set xs. isSupported f" by simp_all
  from collectFile_programFiles [OF sx, of st] obtain info
    where pf: "programFiles (collectFile st x) = addToGroup info (memberOf x) (programFiles st)"
    by blast
  have "\<forall>e \<in> set (programFiles (collectFile st x)). programId (programInfo (snd e)) = fst e"
    unfolding pf by (rule info_addToGroup [OF Cons.prems(2)])
  with Cons.IH [OF sxs] show ?case by simp
qed

lemma supportedFiles_all: "\<forall>f \<in> set (supportedFiles allFiles). isSupported f"
  by (simp add: supportedFiles_def)

lemma programFiles_initialStats: "programFiles initialStats = []"
  by (simp add: initialStats_def)

lemma groupingPass_keys:
  "set (map fst (programFiles (groupingPass allFiles)))
     = {pid. \<exists>f \<in> set allFiles. isSupported f \<and> programIdOf f = Some pid}"
proof -
  have "set (map fst (programFiles (foldl collectFile initialStats (supportedFiles allFiles))))
      = set (map fst (programFiles initialStats))
          \<union> {pid. \<exists>f \<in> set (supportedFiles allFiles). programIdOf f = Some pid}"
    by (rule foldl_collect_keys [OF supportedFiles_all])
  then show ?thesis
    by (auto simp: groupingPass_def programFiles_initialStats supportedFiles_def)
qed

lemma groupingPass_distinct: "distinct (map fst (programFiles (groupingPass allFiles)))"
  unfolding groupingPass_def
  by (rule foldl_collect_distinct [OF supportedFiles_all]) (simp add: programFiles_initialStats)

lemma groupingPass_members:
  "membersOf (programFiles (groupingPass allFiles)) pid
     = map memberOf (filter (\<lambda>f. isSupported f \<and> programIdOf f = Some pid) allFiles)"
proof -
  have "membersOf (programFiles (foldl collectFile initialStats (supportedFiles allFiles))) pid
      = membersOf (programFiles initialStats) pid
          @ map memberOf (filter (\<lambda>f. programIdOf f = Some pid) (supportedFiles allFiles))"
    by (rule foldl_collect_members [OF supportedFiles_all])
  then show ?thesis
    by (simp add: groupingPass_def programFiles_initialStats supportedFiles_def membersOf_def
        conj_commute)
qed

lemma groupingPass_info:
  assumes "(pid, g) \<in> set (programFiles (groupingPass allFiles))"
  shows "programId (programInfo g) = pid"
proof -
  have "\<forall>e \<in> set (programFiles (foldl collectFile initialStats (supportedFiles allFiles))).
          programId (programInfo (snd e)) = fst e"
    by (rule foldl_collect_info [OF supportedFiles_all]) (simp add: programFiles_initialStats)
  with assms show ?thesis unfolding groupingPass_def by fastforce
qed

lemma programIdOf_baseName:
  assumes "isSupported fp"
  shows "programIdOf fp =
     Some (case PROGRAM_PATTERN (baseNameOf fp) of
             None \<Rightarrow> baseNameOf fp
           | Some m \<Rightarrow> ''Chapt'' @ m_chapter m @ m_type m @ m_number m
                        @ (case m_variant m of None \<Rightarrow> [] | Some v \<Rightarrow> v))"
proof -
  from assms have "toLowerCase (extname (basename fp)) \<in> set SUPPORTED_EXTENSIONS"
    by (simp add: isSupported_def extname_basename)
  then show ?thesis
    unfolding programIdOf_def extractProgramInfo_def baseNameOf_def Let_def
    by (simp split: option.splits)
qed

lemma filePath_memberOf: "filePath (memberOf fp) = fp"
  by (simp add: memberOf_def)

lemma filename_memberOf: "filename (memberOf fp) = basename fp"
  by (simp add: memberOf_def)

lemma groupingPass_group:
  assumes "f \<in> set allFiles" "isSupported f" "programIdOf f = Some pid"
  shows "\<exists>grp. map_of (programFiles (groupingPass allFiles)) pid = Some grp
           \<and> files grp = map memberOf (filter (\<lambda>f. isSupported f \<and> programIdOf f = Some pid) allFiles)"
proof -
  have "pid \<in> set (map fst (programFiles (groupingPass allFiles)))"
    unfolding groupingPass_keys using assms by blast
  then have "map_of (programFiles (groupingPass allFiles)) pid \<noteq> None"
    by (simp add: map_of_eq_None_iff)
  then obtain grp where g: "map_of (programFiles (groupingPass allFiles)) pid = Some grp" by blast
  then have "files grp = membersOf (programFiles (groupingPass allFiles)) pid"
    by (simp add: membersOf_def)
  with g show ?thesis by (simp add: groupingPass_members)
qed

lemma groupingPass_entry:
  assumes "(k, g) \<in> set (programFiles (groupingPass allFiles))"
  shows "map_of (programFiles (groupingPass allFiles)) k = Some g
       \<and> files g = map memberOf (filter (\<lambda>f. isSupported f \<and> programIdOf f = Some k) allFiles)"
proof -
  from assms have m: "map_of (programFiles (groupingPass allFiles)) k = Some g"
    by (simp add: groupingPass_distinct)
  then have "files g = membersOf (programFiles (groupingPass allFiles)) k"
    by (simp add: membersOf_def)
  with m show ?thesis by (simp add: groupingPass_members)
qed

lemma single_key_list:
  assumes "distinct (map fst m)" "set (map fst m) = {k}"
  shows "\<exists>v. m = [(k, v)]"
proof -
  from assms have "length (map fst m) = 1"
    using distinct_card [of "map fst m"] by simp
  then obtain e where "m = [e]" by (cases m) auto
  with assms(2) show ?thesis by (cases e) auto
qed

lemma chapt5_files:
  assumes "f \<in> {''Chapt5Exercise5.m'', ''Chapt5Exercise5.pdf'', ''Chapt5Exercise5.tex'',
                 ''Chapt5Exercise5.html''}"
  shows "isSupported f \<and> programIdOf f = Some ''Chapt5Exercise5'' \<and> basename f = f"
proof -
  have 1: "isSupported ''Chapt5Exercise5.m'' \<and> programIdOf ''Chapt5Exercise5.m'' = Some ''Chapt5Exercise5''
        \<and> basename ''Chapt5Exercise5.m'' = ''Chapt5Exercise5.m''" by code_simp
  have 2: "isSupported ''Chapt5Exercise5.pdf'' \<and> programIdOf ''Chapt5Exercise5.pdf'' = Some ''Chapt5Exercise5''
        \<and> basename ''Chapt5Exercise5.pdf'' = ''Chapt5Exercise5.pdf''" by code_simp
  have 3: "isSupported ''Chapt5Exercise5.tex'' \<and> programIdOf ''Chapt5Exercise5.tex'' = Some ''Chapt5Exercise5''
        \<and> basename ''Chapt5Exercise5.tex'' = ''Chapt5Exercise5.tex''" by code_simp
  have 4: "isSupported ''Chapt5Exercise5.html'' \<and> programIdOf ''Chapt5Exercise5.html'' = Some ''Chapt5Exercise5''
        \<and> basename ''Chapt5Exercise5.html'' = ''Chapt5Exercise5.html''" by code_simp
  from assms have "f = ''Chapt5Exercise5.m'' \<or> f = ''Chapt5Exercise5.pdf'' \<or> f = ''Chapt5Exercise5.tex''
     \<or> f = ''Chapt5Exercise5.html''" by (simp only: insert_iff empty_iff simp_thms)
  then show ?thesis
  proof (elim disjE)
    assume "f = ''Chapt5Exercise5.m''" then show ?thesis by (simp only: 1)
  next
    assume "f = ''Chapt5Exercise5.pdf''" then show ?thesis by (simp only: 2)
  next
    assume "f = ''Chapt5Exercise5.tex''" then show ?thesis by (simp only: 3)
  next
    assume "f = ''Chapt5Exercise5.html''" then show ?thesis by (simp only: 4)
  qed
qed

lemma card_chapt5_files:
  "card {''Chapt5Exercise5.m'', ''Chapt5Exercise5.pdf'', ''Chapt5Exercise5.tex'',
         ''Chapt5Exercise5.html''} = 4"
  by simp

lemma all_same_key:
  assumes ne: "allFiles \<noteq> []"
    and all: "\<forall>f \<in> set allFiles. isSupported f \<and> programIdOf f = Some k"
  shows "\<exists>grp. programFiles (groupingPass allFiles) = [(k, grp)]
           \<and> programId (programInfo grp) = k \<and> files grp = map memberOf allFiles"
proof -
  let ?pf = "programFiles (groupingPass allFiles)"
  from ne obtain x where x: "x \<in> set allFiles" by (cases allFiles) auto
  have "{pid. \<exists>f \<in> set allFiles. isSupported f \<and> programIdOf f = Some pid} = {k}"
  proof (intro equalityI subsetI)
    fix p assume "p \<in> {pid. \<exists>f \<in> set allFiles. isSupported f \<and> programIdOf f = Some pid}"
    then obtain f where "f \<in> set allFiles" and p: "programIdOf f = Some p" by blast
    with all have "programIdOf f = Some k" by blast
    with p show "p \<in> {k}" by simp
  next
    fix p assume "p \<in> {k}"
    then have "p = k" by simp
    with all x show "p \<in> {pid. \<exists>f \<in> set allFiles. isSupported f \<and> programIdOf f = Some pid}"
      by blast
  qed
  then have ks: "set (map fst ?pf) = {k}" by (simp only: groupingPass_keys)
  from single_key_list [OF groupingPass_distinct ks]
  obtain grp where pf: "?pf = [(k, grp)]" by (elim exE)
  then have "(k, grp) \<in> set ?pf" by simp
  from groupingPass_entry [OF this] groupingPass_info [OF this]
  have fl: "files grp = map memberOf (filter (\<lambda>f. isSupported f \<and> programIdOf f = Some k) allFiles)"
    and pi: "programId (programInfo grp) = k" by simp_all
  have "filter (\<lambda>f. isSupported f \<and> programIdOf f = Some k) allFiles = allFiles"
    using all by (simp add: filter_id_conv)
  with fl have "files grp = map memberOf allFiles" by simp
  with pf pi show ?thesis by blast
qed

lemma same_base_name_same_id:
  assumes "isSupported f" "isSupported g" "baseNameOf f = baseNameOf g"
  shows "programIdOf g = programIdOf f"
  unfolding programIdOf_baseName [OF assms(1)] programIdOf_baseName [OF assms(2)] assms(3) ..

lemma group_of_file:
  assumes inf: "f \<in> set allFiles" and sf: "isSupported f" and pf: "programIdOf f = Some pid"
    and e: "(k, g') \<in> set (programFiles (groupingPass allFiles))"
    and d: "f \<in> set (map filePath (files g'))"
  shows "k = pid"
proof -
  from groupingPass_entry [OF e]
  have fl': "files g' = map memberOf (filter (\<lambda>f. isSupported f \<and> programIdOf f = Some k) allFiles)"
    by simp
  have "programIdOf f = Some k"
    using d unfolding fl' by (auto simp: filePath_memberOf)
  with pf show ?thesis by simp
qed

lemma file_in_group:
  assumes "f \<in> set allFiles" "isSupported f" "programIdOf f = Some pid"
    and "files grp = map memberOf (filter (\<lambda>f. isSupported f \<and> programIdOf f = Some pid) allFiles)"
  shows "f \<in> set (map filePath (files grp))"
  unfolding assms(4) using assms(1-3) by (auto simp: filePath_memberOf image_iff)

text \<open>
  C1. Whatever the order in which the four files \<open>Chapt5Exercise5.m\<close>, \<open>.pdf\<close>,
  \<open>.tex\<close> and \<open>.html\<close> are listed, the grouping pass builds exactly one group; its key
  and the program id of its identity are \<open>Chapt5Exercise5\<close>, and its members are the four
  files. In general, two scanned files with a supported extension and the same base name
  get the same program id, both are members of the group stored under that id, and no
  other group holds either of them.
\<close>

theorem same_base_name_one_group:
  "(set allFiles = {''Chapt5Exercise5.m'', ''Chapt5Exercise5.pdf'', ''Chapt5Exercise5.tex'',
                    ''Chapt5Exercise5.html''} \<and> distinct allFiles \<longrightarrow>
      (\<exists>grp. programFiles (groupingPass allFiles) = [(''Chapt5Exercise5'', grp)]
         \<and> programId (programInfo grp) = ''Chapt5Exercise5''
         \<and> length (files grp) = 4
         \<and> set (map filename (files grp)) = set allFiles))
   \<and> (f \<in> set allFiles \<and> g \<in> set allFiles \<and> isSupported f \<and> isSupported g
        \<and> baseNameOf f = baseNameOf g \<longrightarrow>
      (\<exists>pid grp. programIdOf f = Some pid \<and> programIdOf g = Some pid
         \<and> map_of (programFiles (groupingPass allFiles)) pid = Some grp
         \<and> f \<in> set (map filePath (files grp)) \<and> g \<in> set (map filePath (files grp))
         \<and> (\<forall>e \<in> set (programFiles (groupingPass allFiles)).
               f \<in> set (map filePath (files (snd e))) \<or> g \<in> set (map filePath (files (snd e)))
               \<longrightarrow> e = (pid, grp))))"
proof (intro conjI impI)
  let ?F = "{''Chapt5Exercise5.m'', ''Chapt5Exercise5.pdf'', ''Chapt5Exercise5.tex'',
             ''Chapt5Exercise5.html''}"
  let ?pf = "programFiles (groupingPass allFiles)"
  assume a: "set allFiles = ?F \<and> distinct allFiles"
  then have sa: "set allFiles = ?F" and da: "distinct allFiles" by (rule conjunct1, rule conjunct2)
  have each: "isSupported x \<and> programIdOf x = Some ''Chapt5Exercise5'' \<and> basename x = x"
    if "x \<in> set allFiles" for x
    using that unfolding sa by (rule chapt5_files)
  have all: "\<forall>x \<in> set allFiles. isSupported x \<and> programIdOf x = Some ''Chapt5Exercise5''"
  proof
    fix x assume "x \<in> set allFiles"
    from each [OF this] show "isSupported x \<and> programIdOf x = Some ''Chapt5Exercise5''"
      by (simp only: simp_thms)
  qed
  have bn: "map basename allFiles = allFiles"
  proof (rule map_idI)
    fix x assume "x \<in> set allFiles"
    from each [OF this] show "basename x = x" by (simp only: simp_thms)
  qed
  have "length allFiles = card (set allFiles)" using da by (simp add: distinct_card)
  then have len: "length allFiles = 4" unfolding sa card_chapt5_files .
  then have ne: "allFiles \<noteq> []" by auto
  from all_same_key [OF ne all] obtain grp
    where pf: "?pf = [(''Chapt5Exercise5'', grp)]"
      and pi: "programId (programInfo grp) = ''Chapt5Exercise5''"
      and fl: "files grp = map memberOf allFiles" by blast
  have l4: "length (files grp) = 4" using len by (simp add: fl)
  have "map filename (files grp) = map basename allFiles"
    by (simp add: fl filename_memberOf comp_def)
  then have "set (map filename (files grp)) = set allFiles" by (simp only: bn)
  with pf pi l4 show "\<exists>grp. ?pf = [(''Chapt5Exercise5'', grp)]
         \<and> programId (programInfo grp) = ''Chapt5Exercise5''
         \<and> length (files grp) = 4
         \<and> set (map filename (files grp)) = set allFiles" by (intro exI [of _ grp] conjI)
next
  let ?pf = "programFiles (groupingPass allFiles)"
  assume a: "f \<in> set allFiles \<and> g \<in> set allFiles \<and> isSupported f \<and> isSupported g
        \<and> baseNameOf f = baseNameOf g"
  then have sf: "isSupported f" and sg: "isSupported g" and inf: "f \<in> set allFiles"
    and ing: "g \<in> set allFiles" and bn: "baseNameOf f = baseNameOf g" by simp_all
  from programIdOf_baseName [OF sf] obtain pid where pf: "programIdOf f = Some pid" by blast
  with same_base_name_same_id [OF sf sg bn] have pg: "programIdOf g = Some pid" by simp
  from groupingPass_group [OF inf sf pf] obtain grp
    where m: "map_of ?pf pid = Some grp"
      and fl: "files grp = map memberOf (filter (\<lambda>f. isSupported f \<and> programIdOf f = Some pid) allFiles)"
    by blast
  have mf: "f \<in> set (map filePath (files grp))" by (rule file_in_group [OF inf sf pf fl])
  have mg: "g \<in> set (map filePath (files grp))" by (rule file_in_group [OF ing sg pg fl])
  have u: "\<forall>e \<in> set ?pf.
      f \<in> set (map filePath (files (snd e))) \<or> g \<in> set (map filePath (files (snd e)))
        \<longrightarrow> e = (pid, grp)"
  proof (intro ballI impI)
    fix e assume e: "e \<in> set ?pf"
      and d: "f \<in> set (map filePath (files (snd e))) \<or> g \<in> set (map filePath (files (snd e)))"
    obtain k g' where eq: "e = (k, g')" by (cases e)
    from e eq have kin: "(k, g') \<in> set ?pf" by simp
    from d have "k = pid"
    proof
      assume "f \<in> set (map filePath (files (snd e)))"
      then show ?thesis using group_of_file [OF inf sf pf kin] by (simp add: eq)
    next
      assume "g \<in> set (map filePath (files (snd e)))"
      then show ?thesis using group_of_file [OF ing sg pg kin] by (simp add: eq)
    qed
    moreover from groupingPass_entry [OF kin] have "map_of ?pf k = Some g'" by simp
    ultimately show "e = (pid, grp)" using m eq by simp
  qed
  from pf pg m mf mg u show "\<exists>pid grp. programIdOf f = Some pid \<and> programIdOf g = Some pid
         \<and> map_of ?pf pid = Some grp
         \<and> f \<in> set (map filePath (files grp)) \<and> g \<in> set (map filePath (files grp))
         \<and> (\<forall>e \<in> set ?pf.
               f \<in> set (map filePath (files (snd e))) \<or> g \<in> set (map filePath (files (snd e)))
               \<longrightarrow> e = (pid, grp))" by blast
qed

theorem same_base_name_one_group_witness:
  "(set [''Chapt5Exercise5.m'', ''Chapt5Exercise5.pdf'', ''Chapt5Exercise5.tex'',
         ''Chapt5Exercise5.html'']
      = {''Chapt5Exercise5.m'', ''Chapt5Exercise5.pdf'', ''Chapt5Exercise5.tex'',
         ''Chapt5Exercise5.html''}
     \<and> distinct [''Chapt5Exercise5.m'', ''Chapt5Exercise5.pdf'', ''Chapt5Exercise5.tex'',
                  ''Chapt5Exercise5.html''])
   \<and> (\<exists>grp. programFiles (groupingPass [''Chapt5Exercise5.m'', ''Chapt5Exercise5.pdf'',
                  ''Chapt5Exercise5.tex'', ''Chapt5Exercise5.html''])
                = [(''Chapt5Exercise5'', grp)]
         \<and> programId (programInfo grp) = ''Chapt5Exercise5''
         \<and> length (files grp) = 4
         \<and> set (map filename (files grp))
             = set [''Chapt5Exercise5.m'', ''Chapt5Exercise5.pdf'', ''Chapt5Exercise5.tex'',
                    ''Chapt5Exercise5.html''])
   \<and> (''Chapt5Exercise5.m'' \<in> set [''Chapt5Exercise5.m'', ''Chapt5Exercise5.pdf'',
                  ''Chapt5Exercise5.tex'', ''Chapt5Exercise5.html'']
        \<and> ''Chapt5Exercise5.pdf'' \<in> set [''Chapt5Exercise5.m'', ''Chapt5Exercise5.pdf'',
                  ''Chapt5Exercise5.tex'', ''Chapt5Exercise5.html'']
        \<and> isSupported ''Chapt5Exercise5.m'' \<and> isSupported ''Chapt5Exercise5.pdf''
        \<and> baseNameOf ''Chapt5Exercise5.m'' = baseNameOf ''Chapt5Exercise5.pdf'')
   \<and> (\<exists>pid grp. programIdOf ''Chapt5Exercise5.m'' = Some pid
         \<and> programIdOf ''Chapt5Exercise5.pdf'' = Some pid
         \<and> map_of (programFiles (groupingPass [''Chapt5Exercise5.m'', ''Chapt5Exercise5.pdf'',
                  ''Chapt5Exercise5.tex'', ''Chapt5Exercise5.html''])) pid = Some grp
         \<and> ''Chapt5Exercise5.m'' \<in> set (map filePath (files grp))
         \<and> ''Chapt5Exercise5.pdf'' \<in> set (map filePath (files grp))
         \<and> (\<forall>e \<in> set (programFiles (groupingPass [''Chapt5Exercise5.m'',
                  ''Chapt5Exercise5.pdf'', ''Chapt5Exercise5.tex'', ''Chapt5Exercise5.html''])).
               ''Chapt5Exercise5.m'' \<in> set (map filePath (files (snd e)))
               \<or> ''Chapt5Exercise5.pdf'' \<in> set (map filePath (files (snd e)))
               \<longrightarrow> e = (pid, grp)))"
  (is "?H1 \<and> ?C1 \<and> ?H2 \<and> ?C2")
proof -
  have h1: ?H1 by simp
  have h2: ?H2 by code_simp
  note t = same_base_name_one_group
    [of "[''Chapt5Exercise5.m'', ''Chapt5Exercise5.pdf'', ''Chapt5Exercise5.tex'',
          ''Chapt5Exercise5.html'']" "''Chapt5Exercise5.m''" "''Chapt5Exercise5.pdf''"]
  from t have "?H1 \<longrightarrow> ?C1" by (rule conjunct1)
  from this h1 have c1: ?C1 by (rule mp)
  from t have "?H2 \<longrightarrow> ?C2" by (rule conjunct2)
  from this h2 have c2: ?C2 by (rule mp)
  show ?thesis by (rule conjI [OF h1 conjI [OF c1 conjI [OF h2 c2]]])
qed

section \<open>Unsupported files\<close>

lemma groupedPaths_supported:
  assumes "p \<in> set (groupedPaths (groupingPass allFiles))"
  shows "p \<in> set allFiles \<and> isSupported p"
proof -
  from assms obtain e where e: "e \<in> set (programFiles (groupingPass allFiles))"
    and p: "p \<in> set (map filePath (files (snd e)))"
    unfolding groupedPaths_def by auto
  obtain k g where eq: "e = (k, g)" by (cases e)
  from e eq have "(k, g) \<in> set (programFiles (groupingPass allFiles))" by simp
  from groupingPass_entry [OF this]
  have "files g = map memberOf (filter (\<lambda>f. isSupported f \<and> programIdOf f = Some k) allFiles)"
    by simp
  with p eq show ?thesis by (auto simp: filePath_memberOf)
qed

lemma supportedFiles_drop:
  "\<not> isSupported f \<Longrightarrow> supportedFiles (xs @ f # ys) = supportedFiles (xs @ ys)"
  by (simp add: supportedFiles_def)

text \<open>
  C5, as the code has it. A scanned file whose extension is not supported is removed by
  the filter in front of the grouping loop: the pass gives the same statistics as if the
  file were absent, so the files before and after it are grouped as usual; the file is a
  member of no group; and it is not recorded as skipped, since the pass leaves the skipped
  count at zero and prints no \<open>Skipped\<close> line.
\<close>

theorem unsupported_files_filtered:
  assumes "\<not> isSupported f"
  shows "groupingPass (xs @ f # ys) = groupingPass (xs @ ys)
       \<and> skipped (groupingPass (xs @ f # ys)) = 0
       \<and> console (groupingPass (xs @ f # ys)) = []
       \<and> f \<notin> set (groupedPaths (groupingPass (xs @ f # ys)))"
proof (intro conjI)
  show "groupingPass (xs @ f # ys) = groupingPass (xs @ ys)"
    unfolding groupingPass_def by (simp only: supportedFiles_drop [OF assms])
  show "skipped (groupingPass (xs @ f # ys)) = 0" by (simp add: groupingPass_skipped)
  show "console (groupingPass (xs @ f # ys)) = []" by (simp add: groupingPass_skipped)
  show "f \<notin> set (groupedPaths (groupingPass (xs @ f # ys)))"
    using groupedPaths_supported [of f "xs @ f # ys"] assms by blast
qed

theorem unsupported_files_filtered_witness:
  "\<not> isSupported ''notes.docx''
   \<and> groupingPass ([''Chapt1Exercise8.m''] @ ''notes.docx'' # [''fermi.m''])
       = groupingPass ([''Chapt1Exercise8.m''] @ [''fermi.m''])
   \<and> skipped (groupingPass ([''Chapt1Exercise8.m''] @ ''notes.docx'' # [''fermi.m''])) = 0
   \<and> console (groupingPass ([''Chapt1Exercise8.m''] @ ''notes.docx'' # [''fermi.m''])) = []
   \<and> ''notes.docx'' \<notin> set (groupedPaths
         (groupingPass ([''Chapt1Exercise8.m''] @ ''notes.docx'' # [''fermi.m''])))"
proof -
  have h: "\<not> isSupported ''notes.docx''" by code_simp
  from unsupported_files_filtered [OF h, of "[''Chapt1Exercise8.m'']" "[''fermi.m'']"] h
  show ?thesis by (rule conjI [rotated])
qed

text \<open>
  C5 as stated fails: with \<open>notes.docx\<close> in the scan result, the skipped count after the
  grouping pass is zero and nothing was printed for the file.
\<close>

theorem unsupported_file_not_counted:
  "\<not> isSupported ''notes.docx''
   \<and> skipped (groupingPass [''notes.docx'', ''Chapt1Exercise8.m'']) = 0
   \<and> console (groupingPass [''notes.docx'', ''Chapt1Exercise8.m'']) = []"
  by code_simp

section \<open>Order of the members on the index page\<close>

lemma js_insert_insort_key:
  "js_insert (\<lambda>a b. Some (f a - f b)) x ys = insort_key f x ys" for f :: "'a \<Rightarrow> int"
  by (induction ys) (simp_all add: compare_value_def)

lemma js_sort_sort_key:
  "js_sort (\<lambda>a b. Some (f a - f b)) xs = sort_key f xs" for f :: "'a \<Rightarrow> int"
  unfolding js_sort_def sort_key_def
  by (induction xs) (simp_all add: js_insert_insort_key)

lemma generateIndexPage_order_sort_key:
  "generateIndexPage_order fl = sort_key typeRank fl"
  unfolding generateIndexPage_order_def by (rule js_sort_sort_key)

lemma same_type_stable:
  "filter (\<lambda>e. fileType e = t) (sort_key typeRank fl) = filter (\<lambda>e. fileType e = t) fl"
proof -
  let ?r = "indexOf typeOrder t"
  have imp: "filter (\<lambda>e. fileType e = t) xs = filter (\<lambda>e. fileType e = t) (filter (\<lambda>e. typeRank e = ?r) xs)"
    for xs by (induction xs) (auto simp: typeRank_def)
  have "filter (\<lambda>e. fileType e = t) (sort_key typeRank fl)
      = filter (\<lambda>e. fileType e = t) (filter (\<lambda>e. typeRank e = ?r) (sort_key typeRank fl))"
    by (rule imp)
  also have "\<dots> = filter (\<lambda>e. fileType e = t) (filter (\<lambda>e. typeRank e = ?r) fl)"
    by (simp only: sort_key_stable)
  also have "\<dots> = filter (\<lambda>e. fileType e = t) fl" by (rule imp [symmetric])
  finally show ?thesis .
qed

lemma typeOrder_ranks: "map (indexOf typeOrder) typeOrder = [0, 1, 2, 3, 4, 5]"
  by code_simp

lemma FILE_TYPES_ranked: "set (map (\<lambda>e. ft_type (snd e)) FILE_TYPES) = set typeOrder"
  by code_simp

text \<open>
  C6, as the code has it. The list the index page shows is the given list reordered
  (the same entries, each as often) so that the type ranks ascend, the ranking being
  matlab, latex, pdf, html, ipynb, text; entries of one type keep the order in which they
  were found, whatever their file names. The types of the file-type table are exactly the
  ranked ones.
\<close>

theorem index_page_order:
  "sorted (map typeRank (generateIndexPage_order filesList))
   \<and> mset (generateIndexPage_order filesList) = mset filesList
   \<and> filter (\<lambda>e. fileType e = t) (generateIndexPage_order filesList)
       = filter (\<lambda>e. fileType e = t) filesList
   \<and> map (indexOf typeOrder) typeOrder = [0, 1, 2, 3, 4, 5]
   \<and> typeOrder = [''matlab'', ''latex'', ''pdf'', ''html'', ''ipynb'', ''text'']
   \<and> set (map (\<lambda>e. ft_type (snd e)) FILE_TYPES) = set typeOrder"
  unfolding generateIndexPage_order_sort_key
  by (intro conjI sorted_sort_key mset_sort same_type_stable typeOrder_ranks FILE_TYPES_ranked
      typeOrder_def)

text \<open>
  C6 as stated fails. Two members of type matlab appear on the index page in the order of
  the scan, in either order, so the tie is not broken by file name; and a type outside the
  ranking has index \<open>-1\<close> and sorts first, not last.
\<close>

theorem index_page_ties_keep_discovery_order:
  "map (\<lambda>e. indexPageFiles (snd e))
       (programFiles (groupingPass [''Chapt1Exercise8.m'', ''Chapt1Exercise8.M'']))
     = [[''Chapt1Exercise8.m'', ''Chapt1Exercise8.M'']]
   \<and> map (\<lambda>e. indexPageFiles (snd e))
       (programFiles (groupingPass [''Chapt1Exercise8.M'', ''Chapt1Exercise8.m'']))
     = [[''Chapt1Exercise8.M'', ''Chapt1Exercise8.m'']]
   \<and> map fe_filename (generateIndexPage_order
        [\<lparr>fe_filename = ''a.m'', fileType = ''matlab'', staticPath = ''/programs/matlab/a/a.m'',
           fe_config = \<lparr>ft_type = ''matlab'', ft_label = ''MATLAB'', canReadText = True\<rparr>\<rparr>,
         \<lparr>fe_filename = ''a.csv'', fileType = ''csv'', staticPath = ''/programs/csv/a/a.csv'',
           fe_config = \<lparr>ft_type = ''csv'', ft_label = ''CSV'', canReadText = True\<rparr>\<rparr>])
     = [''a.csv'', ''a.m'']"
  by code_simp

section \<open>The utility fallback and the order of the sidebar\<close>

text \<open>
  A file with a supported extension whose base name does not match the pattern is
  classified as a utility: its program id is the base name and its chapter is
  \<open>utilities\<close>.
\<close>

lemma utility_fallback:
  assumes "isSupported fn" "PROGRAM_PATTERN (basename_ext fn (extname fn)) = None"
  shows "extractProgramInfo fn =
     Some \<lparr>programId = basename_ext fn (extname fn), chapterDir = ''utilities'',
           chapterNum = ''utilities'', ptype = ''Utility'', number = [], variant = [],
           displayName = basename_ext fn (extname fn), chapterDisplay = Some 99,
           isUtility = True\<rparr>"
  using assms unfolding extractProgramInfo_def isSupported_def Let_def by simp

text \<open>
  C2 at the scan result \<open>Airy.m\<close>, \<open>Chapt1Exercise8.m\<close>. The file \<open>Airy.m\<close> is
  classified as a utility, as the claim says. In the sidebar, however, the comparator
  \<open>parseInt(a) - parseInt(b)\<close> is \<open>NaN\<close> for the key \<open>utilities\<close>, the stable sort
  leaves the keys in insertion order, and the utilities category comes before chapter 1.
  The comparator of the run summary, \<open>sortChapterKeys\<close>, puts the same keys in the order
  the claim describes.
\<close>

theorem utilities_category_not_last:
  "extractProgramInfo ''Airy.m'' =
     Some \<lparr>programId = ''Airy'', chapterDir = ''utilities'', chapterNum = ''utilities'',
           ptype = ''Utility'', number = [], variant = [], displayName = ''Airy'',
           chapterDisplay = Some 99, isUtility = True\<rparr>
   \<and> map cat_label (sidebarCategories (byChapter (groupingPass [''Airy.m'', ''Chapt1Exercise8.m''])))
       = [''Ch NaN: Utility Functions'', ''Ch 1: Introduction to Quantum Mechanics'']
   \<and> js_sort sortChapterKeys (map_keys (byChapter (groupingPass [''Airy.m'', ''Chapt1Exercise8.m''])))
       = [''1'', ''utilities'']"
  by code_simp

text \<open>
  C7 at two scans of one directory holding \<open>Chapt1Exercise8.m\<close> and \<open>fermi.m\<close>: the
  categories of the sidebar come out in the order in which the scan listed the files.
\<close>

theorem sidebar_depends_on_scan_order:
  "map cat_label (sidebarCategories (byChapter (groupingPass [''Chapt1Exercise8.m'', ''fermi.m''])))
       = [''Ch 1: Introduction to Quantum Mechanics'', ''Ch NaN: Utility Functions'']
   \<and> map cat_label (sidebarCategories (byChapter (groupingPass [''fermi.m'', ''Chapt1Exercise8.m''])))
       = [''Ch NaN: Utility Functions'', ''Ch 1: Introduction to Quantum Mechanics'']"
  by code_simp

section \<open>Cleaning\<close>

text \<open>
  C8 at a tree left by a run over \<open>Chapt1Exercise8.m\<close> and \<open>fermi.m\<close>. The index page
  of the utility \<open>fermi\<close> is written to \<open>docs/utilities/fermi/index.mdx\<close>;
  \<open>cleanGenerated\<close> removes \<open>docs/chapter1\<close> and \<open>static/programs\<close> and leaves the
  generated \<open>docs/utilities\<close> directory with that page in place.
\<close>

theorem clean_keeps_utilities_docs:
  "map_option indexPath (extractProgramInfo ''fermi.m'')
     = Some [''docs'', ''utilities'', ''fermi'', ''index.mdx'']
   \<and> fst (cleanGenerated
        [([''docs''], Dir),
         ([''docs'', ''intro.md''], File ''intro''),
         ([''docs'', ''chapter1''], Dir),
         ([''docs'', ''chapter1'', ''Chapt1Exercise8''], Dir),
         ([''docs'', ''chapter1'', ''Chapt1Exercise8'', ''index.mdx''], File ''index page''),
         ([''docs'', ''utilities''], Dir),
         ([''docs'', ''utilities'', ''fermi''], Dir),
         ([''docs'', ''utilities'', ''fermi'', ''index.mdx''], File ''index page''),
         ([''static''], Dir),
         ([''static'', ''programs''], Dir),
         ([''static'', ''programs'', ''matlab''], Dir)])
     = [([''docs''], Dir),
        ([''docs'', ''intro.md''], File ''intro''),
        ([''docs'', ''utilities''], Dir),
        ([''docs'', ''utilities'', ''fermi''], Dir),
        ([''docs'', ''utilities'', ''fermi'', ''index.mdx''], File ''index page''),
        ([''static''], Dir)]"
  by code_simp

lemma rmSync_subset: "set (rmSync q fs) \<subseteq> set fs"
  by (auto simp: rmSync_def)

lemma rmSync_keeps:
  "\<not> prefix q p \<Longrightarrow> filter (\<lambda>e. fst e = p) (rmSync q fs) = filter (\<lambda>e. fst e = p) fs"
  unfolding rmSync_def by (induction fs) auto

lemma rmSync_removed: "e \<in> set fs \<Longrightarrow> e \<notin> set (rmSync q fs) \<Longrightarrow> prefix q (fst e)"
  by (auto simp: rmSync_def)

lemma chapter_item_target:
  assumes "startsWith item ''chapter''" "prefix (DOCS_OUTPUT_DIR @ [item]) p"
  shows "cleanTarget p"
proof -
  from assms(2) obtain r where p: "p = DOCS_OUTPUT_DIR @ item # r"
    by (auto simp: prefix_def)
  show ?thesis unfolding p cleanTarget_def using assms(1) by simp
qed

lemma cleanItem_subset: "set (fst (cleanItem s item)) \<subseteq> set (fst s)"
  using rmSync_subset by (auto simp: cleanItem_def)

lemma cleanItem_keeps:
  "\<not> cleanTarget p \<Longrightarrow>
     filter (\<lambda>e. fst e = p) (fst (cleanItem s item)) = filter (\<lambda>e. fst e = p) (fst s)"
  unfolding cleanItem_def
  by (auto intro!: rmSync_keeps dest: chapter_item_target)

lemma cleanItem_removed:
  "e \<in> set (fst s) \<Longrightarrow> e \<notin> set (fst (cleanItem s item)) \<Longrightarrow> cleanTarget (fst e)"
proof (cases "startsWith item ''chapter''")
  case True
  assume a: "e \<in> set (fst s)" "e \<notin> set (fst (cleanItem s item))"
  from a(2) True have "e \<notin> set (rmSync (DOCS_OUTPUT_DIR @ [item]) (fst s))"
    by (simp add: cleanItem_def)
  with a(1) have "prefix (DOCS_OUTPUT_DIR @ [item]) (fst e)" by (rule rmSync_removed)
  with True show ?thesis by (rule chapter_item_target)
next
  case False
  assume "e \<in> set (fst s)" "e \<notin> set (fst (cleanItem s item))"
  with False show ?thesis by (simp add: cleanItem_def)
qed

lemma foldl_cleanItem_subset: "set (fst (foldl cleanItem s items)) \<subseteq> set (fst s)"
proof (induction items arbitrary: s)
  case Nil
  show ?case by simp
next
  case (Cons i items)
  have "set (fst (foldl cleanItem (cleanItem s i) items)) \<subseteq> set (fst (cleanItem s i))"
    by (rule Cons.IH)
  also have "\<dots> \<subseteq> set (fst s)" by (rule cleanItem_subset)
  finally show ?case by simp
qed

lemma foldl_cleanItem_keeps:
  "\<not> cleanTarget p \<Longrightarrow>
     filter (\<lambda>e. fst e = p) (fst (foldl cleanItem s items)) = filter (\<lambda>e. fst e = p) (fst s)"
  by (induction items arbitrary: s) (simp_all add: cleanItem_keeps)

lemma foldl_cleanItem_removed:
  "e \<in> set (fst s) \<Longrightarrow> e \<notin> set (fst (foldl cleanItem s items)) \<Longrightarrow> cleanTarget (fst e)"
proof (induction items arbitrary: s)
  case Nil
  then show ?case by simp
next
  case (Cons i items)
  show ?case
  proof (cases "e \<in> set (fst (cleanItem s i))")
    case True
    with Cons.IH [of "cleanItem s i"] Cons.prems(2) show ?thesis by simp
  next
    case False
    with Cons.prems(1) show ?thesis by (rule cleanItem_removed)
  qed
qed

lemma cleanGenerated_subset: "set (fst (cleanGenerated fs)) \<subseteq> set fs"
proof -
  define s1 where "s1 = (if existsSync DOCS_OUTPUT_DIR fs
                then foldl cleanItem (fs, 0) (readdirSync DOCS_OUTPUT_DIR fs)
                else (fs, 0))"
  have 1: "set (fst s1) \<subseteq> set fs"
    unfolding s1_def using foldl_cleanItem_subset [of "(fs, 0)"] by simp
  have "set (fst (cleanGenerated fs)) \<subseteq> set (fst s1)"
    unfolding cleanGenerated_def s1_def [symmetric] Let_def using rmSync_subset by auto
  with 1 show ?thesis by blast
qed

lemma static_target: "prefix STATIC_OUTPUT_DIR p \<Longrightarrow> cleanTarget p"
  by (simp add: cleanTarget_def)

lemma cleanGenerated_keeps:
  assumes "\<not> cleanTarget p"
  shows "filter (\<lambda>e. fst e = p) (fst (cleanGenerated fs)) = filter (\<lambda>e. fst e = p) fs"
proof -
  define s1 where "s1 = (if existsSync DOCS_OUTPUT_DIR fs
                then foldl cleanItem (fs, 0) (readdirSync DOCS_OUTPUT_DIR fs)
                else (fs, 0))"
  have 1: "filter (\<lambda>e. fst e = p) (fst s1) = filter (\<lambda>e. fst e = p) fs"
    unfolding s1_def using foldl_cleanItem_keeps [OF assms, of "(fs, 0)"] by simp
  from assms have ns: "\<not> prefix STATIC_OUTPUT_DIR p" using static_target by blast
  have "filter (\<lambda>e. fst e = p) (fst (cleanGenerated fs)) = filter (\<lambda>e. fst e = p) (fst s1)"
    unfolding cleanGenerated_def s1_def [symmetric] Let_def
    using rmSync_keeps [OF ns] by simp
  with 1 show ?thesis by simp
qed

lemma cleanGenerated_removed:
  assumes "e \<in> set fs" "e \<notin> set (fst (cleanGenerated fs))"
  shows "cleanTarget (fst e)"
proof -
  define s1 where "s1 = (if existsSync DOCS_OUTPUT_DIR fs
                then foldl cleanItem (fs, 0) (readdirSync DOCS_OUTPUT_DIR fs)
                else (fs, 0))"
  show ?thesis
  proof (cases "e \<in> set (fst s1)")
    case True
    have "fst (cleanGenerated fs) =
        (if existsSync STATIC_OUTPUT_DIR (fst s1) then rmSync STATIC_OUTPUT_DIR (fst s1) else fst s1)"
      unfolding cleanGenerated_def s1_def [symmetric] Let_def by simp
    with assms(2) True have "e \<notin> set (rmSync STATIC_OUTPUT_DIR (fst s1))"
      by (simp split: if_splits)
    with True have "prefix STATIC_OUTPUT_DIR (fst e)" by (rule rmSync_removed)
    then show ?thesis by (rule static_target)
  next
    case False
    then have "existsSync DOCS_OUTPUT_DIR fs"
      and "e \<notin> set (fst (foldl cleanItem (fs, 0) (readdirSync DOCS_OUTPUT_DIR fs)))"
      using assms(1) unfolding s1_def by (simp_all split: if_splits)
    with foldl_cleanItem_removed [of e "(fs, 0)"] assms(1) show ?thesis by simp
  qed
qed

lemma source_not_target:
  assumes "\<not> prefix d STATIC_OUTPUT_DIR" "\<not> prefix STATIC_OUTPUT_DIR d"
    and "\<not> prefix d DOCS_OUTPUT_DIR" "\<not> prefix DOCS_OUTPUT_DIR d"
    and "prefix d p"
  shows "\<not> cleanTarget p"
proof
  assume "cleanTarget p"
  then have "prefix STATIC_OUTPUT_DIR p \<or> prefix DOCS_OUTPUT_DIR p"
    by (auto simp: cleanTarget_def)
  then show False
  proof
    assume "prefix STATIC_OUTPUT_DIR p"
    with assms(5) have "prefix d STATIC_OUTPUT_DIR \<or> prefix STATIC_OUTPUT_DIR d"
      by (rule prefix_same_cases)
    with assms(1,2) show False by simp
  next
    assume "prefix DOCS_OUTPUT_DIR p"
    with assms(5) have "prefix d DOCS_OUTPUT_DIR \<or> prefix DOCS_OUTPUT_DIR d"
      by (rule prefix_same_cases)
    with assms(3,4) show False by simp
  qed
qed

lemma default_inbox_apart:
  "\<not> prefix (INBOX_DIR None) STATIC_OUTPUT_DIR \<and> \<not> prefix STATIC_OUTPUT_DIR (INBOX_DIR None)
   \<and> \<not> prefix (INBOX_DIR None) DOCS_OUTPUT_DIR \<and> \<not> prefix DOCS_OUTPUT_DIR (INBOX_DIR None)"
  by (simp add: INBOX_DIR_def STATIC_OUTPUT_DIR_def DOCS_OUTPUT_DIR_def)

lemma inbox_not_target: "prefix (INBOX_DIR None) p \<Longrightarrow> \<not> cleanTarget p"
  using default_inbox_apart by (intro source_not_target [of "INBOX_DIR None"]) simp_all

lemma sidebar_not_target: "\<not> cleanTarget sidebarPath"
  by (simp add: cleanTarget_def sidebarPath_def STATIC_OUTPUT_DIR_def DOCS_OUTPUT_DIR_def)

lemma docs_other_not_target:
  "\<not> startsWith item ''chapter'' \<Longrightarrow> \<not> cleanTarget (DOCS_OUTPUT_DIR @ item # rest)"
  by (simp add: cleanTarget_def STATIC_OUTPUT_DIR_def DOCS_OUTPUT_DIR_def)

text \<open>
  C10, as the code has it. \<open>cleanGenerated\<close> only deletes: every entry of the resulting
  tree is an entry of the given one, and an entry that is gone lies at or below the static
  programs root or at or below an entry of the documentation directory whose name starts
  with \<open>chapter\<close>. At every other path the entries are what they were. Such paths are:
  the source directory and everything in it, when the source directory lies apart from the
  documentation directory and from the static programs root (neither above nor below
  them), as the default \<open>INBOX\<close> does; every documentation entry whose name does not
  start with \<open>chapter\<close> (the introduction page, the \<open>utilities\<close> directory and what it
  holds); and the sidebar configuration file.
\<close>

theorem clean_frame:
  "set (fst (cleanGenerated fs)) \<subseteq> set fs
   \<and> (e \<in> set fs \<and> e \<notin> set (fst (cleanGenerated fs)) \<longrightarrow> cleanTarget (fst e))
   \<and> (\<not> cleanTarget p \<longrightarrow>
        filter (\<lambda>e. fst e = p) (fst (cleanGenerated fs)) = filter (\<lambda>e. fst e = p) fs)
   \<and> (\<not> prefix (INBOX_DIR source) STATIC_OUTPUT_DIR
        \<and> \<not> prefix STATIC_OUTPUT_DIR (INBOX_DIR source)
        \<and> \<not> prefix (INBOX_DIR source) DOCS_OUTPUT_DIR
        \<and> \<not> prefix DOCS_OUTPUT_DIR (INBOX_DIR source)
        \<and> prefix (INBOX_DIR source) q
      \<longrightarrow> \<not> cleanTarget q
          \<and> filter (\<lambda>e. fst e = q) (fst (cleanGenerated fs)) = filter (\<lambda>e. fst e = q) fs)
   \<and> (prefix (INBOX_DIR None) r \<longrightarrow>
        \<not> cleanTarget r
        \<and> filter (\<lambda>e. fst e = r) (fst (cleanGenerated fs)) = filter (\<lambda>e. fst e = r) fs)
   \<and> (\<not> startsWith item ''chapter'' \<longrightarrow> \<not> cleanTarget (DOCS_OUTPUT_DIR @ item # rest))
   \<and> \<not> cleanTarget (DOCS_OUTPUT_DIR @ [''intro.md''])
   \<and> \<not> cleanTarget (DOCS_OUTPUT_DIR @ ''utilities'' # rest)
   \<and> \<not> cleanTarget sidebarPath"
proof (intro conjI impI)
  show "set (fst (cleanGenerated fs)) \<subseteq> set fs" by (rule cleanGenerated_subset)
  show "cleanTarget (fst e)" if "e \<in> set fs \<and> e \<notin> set (fst (cleanGenerated fs))"
    using that cleanGenerated_removed [of e fs] by simp
  show "filter (\<lambda>e. fst e = p) (fst (cleanGenerated fs)) = filter (\<lambda>e. fst e = p) fs"
    if "\<not> cleanTarget p" using that by (rule cleanGenerated_keeps)
  {
    assume a: "\<not> prefix (INBOX_DIR source) STATIC_OUTPUT_DIR
        \<and> \<not> prefix STATIC_OUTPUT_DIR (INBOX_DIR source)
        \<and> \<not> prefix (INBOX_DIR source) DOCS_OUTPUT_DIR
        \<and> \<not> prefix DOCS_OUTPUT_DIR (INBOX_DIR source)
        \<and> prefix (INBOX_DIR source) q"
    then show nq: "\<not> cleanTarget q"
      by (intro source_not_target [of "INBOX_DIR source"]) simp_all
    then show "filter (\<lambda>e. fst e = q) (fst (cleanGenerated fs)) = filter (\<lambda>e. fst e = q) fs"
      by (rule cleanGenerated_keeps)
  }
  {
    assume "prefix (INBOX_DIR None) r"
    then show nr: "\<not> cleanTarget r" by (rule inbox_not_target)
    then show "filter (\<lambda>e. fst e = r) (fst (cleanGenerated fs)) = filter (\<lambda>e. fst e = r) fs"
      by (rule cleanGenerated_keeps)
  }
  show "\<not> cleanTarget (DOCS_OUTPUT_DIR @ item # rest)" if "\<not> startsWith item ''chapter''"
    using that by (rule docs_other_not_target)
  have "\<not> startsWith ''intro.md'' ''chapter''" by code_simp
  then show "\<not> cleanTarget (DOCS_OUTPUT_DIR @ [''intro.md''])" by (rule docs_other_not_target)
  have "\<not> startsWith ''utilities'' ''chapter''" by code_simp
  then show "\<not> cleanTarget (DOCS_OUTPUT_DIR @ ''utilities'' # rest)" by (rule docs_other_not_target)
  show "\<not> cleanTarget sidebarPath" by (rule sidebar_not_target)
qed

theorem clean_frame_witness:
  "(([''docs'', ''chapter1''], Dir)
       \<in> set [([''docs''], Dir), ([''docs'', ''chapter1''], Dir),
               ([''docs'', ''utilities''], Dir), ([''INBOX''], Dir),
               ([''INBOX'', ''fermi.m''], File ''source''), ([''my-files''], Dir),
               ([''my-files'', ''Chapt1Exercise8.m''], File ''source''),
               ([''sidebars.js''], File ''sidebar'')]
     \<and> ([''docs'', ''chapter1''], Dir)
       \<notin> set (fst (cleanGenerated
              [([''docs''], Dir), ([''docs'', ''chapter1''], Dir),
               ([''docs'', ''utilities''], Dir), ([''INBOX''], Dir),
               ([''INBOX'', ''fermi.m''], File ''source''), ([''my-files''], Dir),
               ([''my-files'', ''Chapt1Exercise8.m''], File ''source''),
               ([''sidebars.js''], File ''sidebar'')])))
   \<and> cleanTarget (fst ([''docs'', ''chapter1''], Dir))
   \<and> \<not> cleanTarget [''sidebars.js'']
   \<and> filter (\<lambda>e. fst e = [''sidebars.js''])
        (fst (cleanGenerated
              [([''docs''], Dir), ([''docs'', ''chapter1''], Dir),
               ([''docs'', ''utilities''], Dir), ([''INBOX''], Dir),
               ([''INBOX'', ''fermi.m''], File ''source''), ([''my-files''], Dir),
               ([''my-files'', ''Chapt1Exercise8.m''], File ''source''),
               ([''sidebars.js''], File ''sidebar'')]))
      = filter (\<lambda>e. fst e = [''sidebars.js''])
              [([''docs''], Dir), ([''docs'', ''chapter1''], Dir),
               ([''docs'', ''utilities''], Dir), ([''INBOX''], Dir),
               ([''INBOX'', ''fermi.m''], File ''source''), ([''my-files''], Dir),
               ([''my-files'', ''Chapt1Exercise8.m''], File ''source''),
               ([''sidebars.js''], File ''sidebar'')]
   \<and> (\<not> prefix (INBOX_DIR (Some [''my-files''])) STATIC_OUTPUT_DIR
        \<and> \<not> prefix STATIC_OUTPUT_DIR (INBOX_DIR (Some [''my-files'']))
        \<and> \<not> prefix (INBOX_DIR (Some [''my-files''])) DOCS_OUTPUT_DIR
        \<and> \<not> prefix DOCS_OUTPUT_DIR (INBOX_DIR (Some [''my-files'']))
        \<and> prefix (INBOX_DIR (Some [''my-files''])) [''my-files'', ''Chapt1Exercise8.m''])
   \<and> (\<not> cleanTarget [''my-files'', ''Chapt1Exercise8.m'']
        \<and> filter (\<lambda>e. fst e = [''my-files'', ''Chapt1Exercise8.m''])
            (fst (cleanGenerated
              [([''docs''], Dir), ([''docs'', ''chapter1''], Dir),
               ([''docs'', ''utilities''], Dir), ([''INBOX''], Dir),
               ([''INBOX'', ''fermi.m''], File ''source''), ([''my-files''], Dir),
               ([''my-files'', ''Chapt1Exercise8.m''], File ''source''),
               ([''sidebars.js''], File ''sidebar'')]))
          = filter (\<lambda>e. fst e = [''my-files'', ''Chapt1Exercise8.m''])
              [([''docs''], Dir), ([''docs'', ''chapter1''], Dir),
               ([''docs'', ''utilities''], Dir), ([''INBOX''], Dir),
               ([''INBOX'', ''fermi.m''], File ''source''), ([''my-files''], Dir),
               ([''my-files'', ''Chapt1Exercise8.m''], File ''source''),
               ([''sidebars.js''], File ''sidebar'')])
   \<and> prefix (INBOX_DIR None) [''INBOX'', ''fermi.m'']
   \<and> (\<not> cleanTarget [''INBOX'', ''fermi.m'']
        \<and> filter (\<lambda>e. fst e = [''INBOX'', ''fermi.m''])
            (fst (cleanGenerated
              [([''docs''], Dir), ([''docs'', ''chapter1''], Dir),
               ([''docs'', ''utilities''], Dir), ([''INBOX''], Dir),
               ([''INBOX'', ''fermi.m''], File ''source''), ([''my-files''], Dir),
               ([''my-files'', ''Chapt1Exercise8.m''], File ''source''),
               ([''sidebars.js''], File ''sidebar'')]))
          = filter (\<lambda>e. fst e = [''INBOX'', ''fermi.m''])
              [([''docs''], Dir), ([''docs'', ''chapter1''], Dir),
               ([''docs'', ''utilities''], Dir), ([''INBOX''], Dir),
               ([''INBOX'', ''fermi.m''], File ''source''), ([''my-files''], Dir),
               ([''my-files'', ''Chapt1Exercise8.m''], File ''source''),
               ([''sidebars.js''], File ''sidebar'')])
   \<and> \<not> startsWith ''utilities'' ''chapter''
   \<and> \<not> cleanTarget (DOCS_OUTPUT_DIR @ ''utilities'' # [''fermi''])"
  (is "?H1 \<and> ?C1 \<and> ?H2 \<and> ?C2 \<and> ?H3 \<and> ?C3 \<and> ?H4 \<and> ?C4 \<and> ?H5 \<and> ?C5")
proof -
  have h1: ?H1 by code_simp
  have h2: ?H2 by code_simp
  have h3: ?H3 by code_simp
  have h4: ?H4 by code_simp
  have h5: ?H5 by code_simp
  note t = clean_frame
    [of "[([''docs''], Dir), ([''docs'', ''chapter1''], Dir),
          ([''docs'', ''utilities''], Dir), ([''INBOX''], Dir),
          ([''INBOX'', ''fermi.m''], File ''source''), ([''my-files''], Dir),
          ([''my-files'', ''Chapt1Exercise8.m''], File ''source''),
          ([''sidebars.js''], File ''sidebar'')]"
        "([''docs'', ''chapter1''], Dir)" "[''sidebars.js'']" "Some [''my-files'']"
        "[''my-files'', ''Chapt1Exercise8.m'']" "[''INBOX'', ''fermi.m'']"
        "''utilities''" "[''fermi'']"]
  from t have "?H1 \<longrightarrow> ?C1" by (elim conjE)
  from this h1 have c1: ?C1 by (rule mp)
  from t have "?H2 \<longrightarrow> ?C2" by (elim conjE)
  from this h2 have c2: ?C2 by (rule mp)
  from t have "?H3 \<longrightarrow> ?C3" by (elim conjE)
  from this h3 have c3: ?C3 by (rule mp)
  from t have "?H4 \<longrightarrow> ?C4" by (elim conjE)
  from this h4 have c4: ?C4 by (rule mp)
  from t have "?H5 \<longrightarrow> ?C5" by (elim conjE)
  from this h5 have c5: ?C5 by (rule mp)
  show ?thesis
    by (rule conjI [OF h1 conjI [OF c1 conjI [OF h2 conjI [OF c2 conjI [OF h3 conjI [OF c3
          conjI [OF h4 conjI [OF c4 conjI [OF h5 c5]]]]]]]]])
qed

text \<open>
  C10 as stated fails. The test in \<open>cleanGenerated\<close> is on the name of the entry only: a
  plain file \<open>docs/chapters.md\<close>, which is not a subdirectory, is deleted. And with
  \<open>--source\<close> naming a directory \<open>docs/chapter-src\<close>, the source directory and the file
  in it are deleted.
\<close>

theorem clean_deletes_plain_file:
  "INBOX_DIR (Some [''docs'', ''chapter-src'']) = [''docs'', ''chapter-src'']
   \<and> fst (cleanGenerated
        [([''docs''], Dir),
         ([''docs'', ''intro.md''], File ''intro''),
         ([''docs'', ''chapters.md''], File ''notes''),
         ([''docs'', ''chapter-src''], Dir),
         ([''docs'', ''chapter-src'', ''fermi.m''], File ''source''),
         ([''sidebars.js''], File ''sidebar'')])
     = [([''docs''], Dir),
        ([''docs'', ''intro.md''], File ''intro''),
        ([''sidebars.js''], File ''sidebar'')]"
  by code_simp

section \<open>Letter case in the classifier\<close>

lemma upper_letters_lowered:
  "\<forall>v \<in> set upperLetters. isLower (toLowerChar v) \<and> \<not> isDigit v"
  by code_simp

lemma lower_letters_fixed:
  "\<forall>v \<in> set lowerLetters. toLowerChar v = v \<and> \<not> isDigit v"
  by code_simp

lemma digits_fixed: "\<forall>v \<in> set ''0123456789''. toLowerChar v = v"
  by code_simp

lemma toLowerChar_upper: "isUpper v \<Longrightarrow> isLower (toLowerChar v) \<and> \<not> isDigit v"
  unfolding isUpper_def by (rule bspec [OF upper_letters_lowered])

lemma toLowerChar_lower: "isLower v \<Longrightarrow> toLowerChar v = v \<and> \<not> isDigit v"
  unfolding isLower_def by (rule bspec [OF lower_letters_fixed])

lemma toLowerChar_digit: "isDigit v \<Longrightarrow> toLowerChar v = v"
  unfolding isDigit_def by (rule bspec [OF digits_fixed])

lemma letter_variant: "isUpper v \<or> isLower v \<Longrightarrow> isLower (toLowerChar v) \<and> \<not> isDigit v"
  using toLowerChar_upper [of v] toLowerChar_lower [of v] by auto

lemma eat_literal_Some:
  assumes "eat_literal lit s = Some (a, r)"
  shows "s = a @ r \<and> length a = length lit \<and> toLowerCase a = toLowerCase lit"
  using assms unfolding eat_literal_def by (auto split: if_splits)

lemma eat_literal_prefix:
  assumes "toLowerCase a = toLowerCase lit"
  shows "eat_literal lit (a @ r) = Some (a, r)"
proof -
  from assms have "length a = length lit"
    unfolding toLowerCase_def by (metis length_map)
  with assms show ?thesis unfolding eat_literal_def by simp
qed

lemma eat_digits_Some:
  assumes "eat_digits s = Some (d, r)"
  shows "s = d @ r \<and> d \<noteq> [] \<and> list_all isDigit d"
  using assms unfolding eat_digits_def
  by (auto split: if_splits simp: list_all_iff dest: set_takeWhileD)

lemma takeWhile_digits:
  assumes "list_all isDigit d" "r = [] \<or> \<not> isDigit (hd r)"
  shows "takeWhile isDigit (d @ r) = d \<and> dropWhile isDigit (d @ r) = r"
proof -
  have "takeWhile isDigit r = [] \<and> dropWhile isDigit r = r"
    using assms(2) by (cases r) auto
  with assms(1) show ?thesis
    by (simp add: list_all_iff takeWhile_append2 dropWhile_append2)
qed

lemma eat_digits_run:
  assumes "d \<noteq> []" "list_all isDigit d" "r = [] \<or> \<not> isDigit (hd r)"
  shows "eat_digits (d @ r) = Some (d, r)"
  using takeWhile_digits [OF assms(2,3)] assms(1) unfolding eat_digits_def by simp

lemma eat_type_Some:
  assumes "eat_type s = Some (t, r)"
  shows "s = t @ r \<and> (toLowerCase t = toLowerCase ''Exercise'' \<or> toLowerCase t = toLowerCase ''Fig'')"
proof (cases "eat_literal ''Exercise'' s")
  case None
  with assms have "eat_literal ''Fig'' s = Some (t, r)" by (simp add: eat_type_def)
  from eat_literal_Some [OF this] show ?thesis by simp
next
  case (Some x)
  with assms have "eat_literal ''Exercise'' s = Some (t, r)" by (simp add: eat_type_def)
  from eat_literal_Some [OF this] show ?thesis by simp
qed

lemma eat_variant_split:
  assumes "eat_variant s = (v, r)"
  shows "s = (case v of None \<Rightarrow> [] | Some x \<Rightarrow> x) @ r"
  using assms unfolding eat_variant_def by (auto split: list.splits if_splits)

lemma match_here_split:
  assumes "match_here s = Some (m, rest)"
  shows "\<exists>pre. s = pre @ m_chapter m @ m_type m @ m_number m
                   @ (case m_variant m of None \<Rightarrow> [] | Some x \<Rightarrow> x) @ rest
             \<and> length pre = 5
             \<and> eat_literal ''Chapt'' s = Some (pre, drop 5 s)"
proof -
  from assms obtain pre s1 where 1: "eat_literal ''Chapt'' s = Some (pre, s1)"
    unfolding match_here_def by (auto split: option.splits)
  from assms 1 obtain c s2 where 2: "eat_digits s1 = Some (c, s2)"
    unfolding match_here_def by (auto split: option.splits)
  from assms 1 2 obtain t s3 where 3: "eat_type s2 = Some (t, s3)"
    unfolding match_here_def by (auto split: option.splits)
  from assms 1 2 3 obtain n s4 where 4: "eat_digits s3 = Some (n, s4)"
    unfolding match_here_def by (auto split: option.splits)
  obtain v r where 5: "eat_variant s4 = (v, r)" by (cases "eat_variant s4")
  from assms 1 2 3 4 5
  have m: "m = \<lparr>m_chapter = c, m_type = t, m_number = n, m_variant = v\<rparr>" and r: "rest = r"
    unfolding match_here_def by simp_all
  from eat_literal_Some [OF 1] have p: "s = pre @ s1" "length pre = 5" by simp_all
  from eat_digits_Some [OF 2] have "s1 = c @ s2" by simp
  moreover from eat_type_Some [OF 3] have "s2 = t @ s3" by simp
  moreover from eat_digits_Some [OF 4] have "s3 = n @ s4" by simp
  moreover from eat_variant_split [OF 5] have "s4 = (case v of None \<Rightarrow> [] | Some x \<Rightarrow> x) @ r" .
  ultimately have "s1 = c @ t @ n @ (case v of None \<Rightarrow> [] | Some x \<Rightarrow> x) @ r" by simp
  moreover from p have "drop 5 s = s1" by simp
  ultimately show ?thesis using p 1 m r by simp
qed

lemma match_here_Chapt:
  assumes "match_here s = Some (m, rest)"
  shows "match_here (''Chapt'' @ drop 5 s) = Some (m, rest)"
proof -
  from match_here_split [OF assms] obtain pre
    where e1: "eat_literal ''Chapt'' s = Some (pre, drop 5 s)" by blast
  have e2: "eat_literal ''Chapt'' (''Chapt'' @ drop 5 s) = Some (''Chapt'', drop 5 s)"
    by (rule eat_literal_prefix) simp
  from assms show ?thesis unfolding match_here_def by (simp only: e1 e2 option.case prod.case)
qed

lemma search_pattern_Chapt:
  assumes "match_here s = Some (m, rest)"
  shows "search_pattern (''Chapt'' @ drop 5 s) = Some m"
proof -
  have c: "''Chapt'' @ drop 5 s = CHR ''C'' # (''hapt'' @ drop 5 s)" by simp
  have "match_here (CHR ''C'' # (''hapt'' @ drop 5 s)) = Some (m, rest)"
    using match_here_Chapt [OF assms] by (simp only: c)
  then have "search_pattern (CHR ''C'' # (''hapt'' @ drop 5 s)) = Some m"
    by (simp only: search_pattern.simps option.case prod.case)
  then show ?thesis by (simp only: c)
qed

lemma PROGRAM_PATTERN_Some:
  assumes "PROGRAM_PATTERN s = Some m"
  shows "match_here s = Some (m, [])"
  using assms unfolding PROGRAM_PATTERN_def by (auto split: option.splits if_splits)

lemma matched_program_info:
  assumes "PROGRAM_PATTERN (basename_ext fn (extname fn)) = Some m"
  shows "extractProgramInfo fn =
     Some \<lparr>programId = ''Chapt'' @ m_chapter m @ m_type m @ m_number m
                        @ (case m_variant m of None \<Rightarrow> [] | Some v \<Rightarrow> v),
           chapterDir = ''chapter'' @ m_chapter m,
           chapterNum = m_chapter m,
           ptype = m_type m,
           number = m_number m,
           variant = (case m_variant m of None \<Rightarrow> [] | Some v \<Rightarrow> v),
           displayName = ''Chapter '' @ m_chapter m @ '' - '' @ m_type m @ '' '' @ m_number m
                         @ (case m_variant m of None \<Rightarrow> [] | Some v \<Rightarrow> toUpperCase v),
           chapterDisplay = parseInt (m_chapter m),
           isUtility = False\<rparr>"
  unfolding extractProgramInfo_def Let_def by (simp only: assms option.case)

lemma toUpperCase_variant:
  "(case v of None \<Rightarrow> [] | Some x \<Rightarrow> toUpperCase x)
     = toUpperCase (case v of None \<Rightarrow> [] | Some x \<Rightarrow> x)"
  by (cases v) (simp_all add: toUpperCase_def)

lemma lowered_literals:
  "toLowerCase ''Chapt'' = ''chapt''" "toLowerCase ''Exercise'' = ''exercise''"
  "toLowerCase ''Fig'' = ''fig''"
  by code_simp+

lemma not_digit_e_f: "\<not> isDigit CHR ''e''" "\<not> isDigit CHR ''f''"
  by code_simp+

lemma type_token_head:
  assumes "toLowerCase t = ''exercise'' \<or> toLowerCase t = ''fig''"
  shows "\<exists>a t'. t = a # t' \<and> \<not> isDigit a
           \<and> (toLowerCase t = ''fig'' \<longrightarrow> toLowerChar a = CHR ''f'')"
proof -
  from assms have "toLowerCase t \<noteq> []" by auto
  then obtain a t' where t: "t = a # t'" by (cases t) (auto simp: toLowerCase_def)
  from assms t have l: "toLowerChar a = CHR ''e'' \<or> toLowerChar a = CHR ''f''"
    by (auto simp: toLowerCase_def)
  have "\<not> isDigit a"
  proof
    assume "isDigit a"
    then have "toLowerChar a = a" by (rule toLowerChar_digit)
    with l \<open>isDigit a\<close> show False using not_digit_e_f by auto
  qed
  moreover have "toLowerCase t = ''fig'' \<longrightarrow> toLowerChar a = CHR ''f''"
    using t by (auto simp: toLowerCase_def)
  ultimately show ?thesis using t by blast
qed

lemma eat_type_token:
  assumes "toLowerCase t = ''exercise'' \<or> toLowerCase t = ''fig''"
  shows "eat_type (t @ r) = Some (t, r)"
  using assms
proof
  assume "toLowerCase t = ''exercise''"
  then have "eat_literal ''Exercise'' (t @ r) = Some (t, r)"
    by (intro eat_literal_prefix) (simp add: lowered_literals)
  then show ?thesis by (simp add: eat_type_def)
next
  assume f: "toLowerCase t = ''fig''"
  with type_token_head [of t] obtain a t' where t: "t = a # t'"
    and a: "toLowerChar a = CHR ''f''" by blast
  have "toLowerCase (take (length ''Exercise'') (t @ r)) \<noteq> toLowerCase ''Exercise''"
    unfolding lowered_literals t by (simp add: toLowerCase_def a)
  then have "eat_literal ''Exercise'' (t @ r) = None" by (simp add: eat_literal_def)
  moreover have "eat_literal ''Fig'' (t @ r) = Some (t, r)"
    using f by (intro eat_literal_prefix) (simp add: lowered_literals)
  ultimately show ?thesis by (simp add: eat_type_def)
qed

lemma eat_variant_letter:
  assumes "isLower (toLowerChar v)" "list_all isDigit ds"
  shows "eat_variant (v # ds) = (Some (v # ds), [])"
proof -
  from assms(2) have "takeWhile isDigit ds = ds" "dropWhile isDigit ds = []"
    by (simp_all add: list_all_iff)
  with assms(1) show ?thesis by (simp add: eat_variant_def)
qed

lemma grammar_shape_matches:
  assumes pre: "toLowerCase pre = ''chapt''"
    and c: "c \<noteq> []" "list_all isDigit c"
    and t: "toLowerCase t = ''exercise'' \<or> toLowerCase t = ''fig''"
    and n: "n \<noteq> []" "list_all isDigit n"
    and v: "isUpper v \<or> isLower v"
    and ds: "list_all isDigit ds"
  shows "PROGRAM_PATTERN (pre @ c @ t @ n @ v # ds)
           = Some \<lparr>m_chapter = c, m_type = t, m_number = n, m_variant = Some (v # ds)\<rparr>"
proof -
  from letter_variant [OF v] have lv: "isLower (toLowerChar v)" and nv: "\<not> isDigit v" by simp_all
  from type_token_head [OF t] obtain a t' where ta: "t = a # t'" and na: "\<not> isDigit a" by blast
  have 1: "eat_literal ''Chapt'' (pre @ c @ t @ n @ v # ds) = Some (pre, c @ t @ n @ v # ds)"
    by (rule eat_literal_prefix) (simp add: pre lowered_literals)
  have 2: "eat_digits (c @ t @ n @ v # ds) = Some (c, t @ n @ v # ds)"
    by (rule eat_digits_run [OF c]) (simp add: ta na)
  have 3: "eat_type (t @ n @ v # ds) = Some (t, n @ v # ds)"
    by (rule eat_type_token [OF t])
  have 4: "eat_digits (n @ v # ds) = Some (n, v # ds)"
    by (rule eat_digits_run [OF n]) (simp add: nv)
  have 5: "eat_variant (v # ds) = (Some (v # ds), [])"
    by (rule eat_variant_letter [OF lv ds])
  have "match_here (pre @ c @ t @ n @ v # ds)
      = Some (\<lparr>m_chapter = c, m_type = t, m_number = n, m_variant = Some (v # ds)\<rparr>, [])"
    unfolding match_here_def by (simp only: 1 2 3 4 5 option.case prod.case)
  then show ?thesis by (simp add: PROGRAM_PATTERN_def)
qed

text \<open>
  C3, as the code has it. The \<open>i\<close> flag makes the whole pattern case-insensitive, the
  variant letter included. A file whose base name is \<open>Chapt\<close> (in any letter case), a
  chapter number, \<open>Exercise\<close> or \<open>Fig\<close> (in any letter case), a number, an uppercase
  variant letter and optional digits matches the pattern: it is classified as a program of
  that chapter, not as a utility, and the variant is kept as written.
\<close>

theorem uppercase_variant_is_matched:
  assumes "basename_ext fn (extname fn) = pre @ c @ t @ n @ v # ds"
    and "toLowerCase pre = ''chapt''"
    and "c \<noteq> []" and "list_all isDigit c"
    and "toLowerCase t = ''exercise'' \<or> toLowerCase t = ''fig''"
    and "n \<noteq> []" and "list_all isDigit n"
    and "isUpper v" and "list_all isDigit ds"
  shows "extractProgramInfo fn =
     Some \<lparr>programId = ''Chapt'' @ c @ t @ n @ v # ds,
           chapterDir = ''chapter'' @ c, chapterNum = c, ptype = t, number = n,
           variant = v # ds,
           displayName = ''Chapter '' @ c @ '' - '' @ t @ '' '' @ n @ toUpperCase (v # ds),
           chapterDisplay = parseInt c, isUtility = False\<rparr>"
proof -
  from assms(8) have v: "isUpper v \<or> isLower v" by simp
  have "PROGRAM_PATTERN (basename_ext fn (extname fn))
      = Some \<lparr>m_chapter = c, m_type = t, m_number = n, m_variant = Some (v # ds)\<rparr>"
    unfolding assms(1)
    by (rule grammar_shape_matches [OF assms(2) assms(3) assms(4) assms(5) assms(6) assms(7) v assms(9)])
  from matched_program_info [OF this] show ?thesis by simp
qed

theorem uppercase_variant_is_matched_witness:
  "(basename_ext ''Chapt2Fig3A.pdf'' (extname ''Chapt2Fig3A.pdf'')
      = ''Chapt'' @ ''2'' @ ''Fig'' @ ''3'' @ CHR ''A'' # []
    \<and> toLowerCase ''Chapt'' = ''chapt''
    \<and> ''2'' \<noteq> [] \<and> list_all isDigit ''2''
    \<and> (toLowerCase ''Fig'' = ''exercise'' \<or> toLowerCase ''Fig'' = ''fig'')
    \<and> ''3'' \<noteq> [] \<and> list_all isDigit ''3''
    \<and> isUpper CHR ''A'' \<and> list_all isDigit [])
   \<and> extractProgramInfo ''Chapt2Fig3A.pdf'' =
     Some \<lparr>programId = ''Chapt'' @ ''2'' @ ''Fig'' @ ''3'' @ CHR ''A'' # [],
           chapterDir = ''chapter'' @ ''2'', chapterNum = ''2'', ptype = ''Fig'', number = ''3'',
           variant = CHR ''A'' # [],
           displayName = ''Chapter '' @ ''2'' @ '' - '' @ ''Fig'' @ '' '' @ ''3''
                         @ toUpperCase (CHR ''A'' # []),
           chapterDisplay = parseInt ''2'', isUtility = False\<rparr>"
  (is "?H \<and> ?C")
proof -
  have h: ?H by code_simp
  have ?C
    by (rule uppercase_variant_is_matched [where pre = "''Chapt''"])
      (use h in \<open>simp_all only: simp_thms\<close>)
  with h show ?thesis by (rule conjI)
qed

text \<open>
  C3 as stated fails: \<open>Chapt2Fig3A.pdf\<close>, whose variant letter is uppercase, is matched
  and is a program of chapter 2, not a utility.
\<close>

theorem uppercase_variant_not_utility:
  "extractProgramInfo ''Chapt2Fig3A.pdf'' =
     Some \<lparr>programId = ''Chapt2Fig3A'', chapterDir = ''chapter2'', chapterNum = ''2'',
           ptype = ''Fig'', number = ''3'', variant = ''A'',
           displayName = ''Chapter 2 - Fig 3A'', chapterDisplay = Some 2,
           isUtility = False\<rparr>"
  by code_simp

text \<open>
  C4, as the code has it. For every file whose base name matches the pattern, the program
  id is the base name with its first five characters replaced by the literal \<open>Chapt\<close>:
  what follows is the chapter number, the discriminator, the number and the variant exactly
  as the file name writes them, so neither the casing of the discriminator nor that of the
  variant is normalised. Only the display name and the sidebar label derived from the id
  change the variant, to upper case.
\<close>

theorem programId_as_written:
  assumes "PROGRAM_PATTERN (basename_ext fn (extname fn)) \<noteq> None"
  shows "\<exists>info. extractProgramInfo fn = Some info
     \<and> \<not> isUtility info
     \<and> programId info = ''Chapt'' @ drop 5 (basename_ext fn (extname fn))
     \<and> drop 5 (basename_ext fn (extname fn))
         = chapterNum info @ ptype info @ number info @ variant info
     \<and> displayName info = ''Chapter '' @ chapterNum info @ '' - '' @ ptype info @ '' ''
         @ number info @ toUpperCase (variant info)
     \<and> extractLabelFromProgramId (programId info)
         = ptype info @ '' '' @ number info @ toUpperCase (variant info)"
proof -
  let ?b = "basename_ext fn (extname fn)"
  let ?v = "\<lambda>m. case m_variant m of None \<Rightarrow> [] | Some x \<Rightarrow> x"
  from assms obtain m where m: "PROGRAM_PATTERN ?b = Some m" by blast
  note mh = PROGRAM_PATTERN_Some [OF m]
  from match_here_split [OF mh] obtain pre
    where b: "?b = pre @ m_chapter m @ m_type m @ m_number m @ ?v m @ []" and l: "length pre = 5"
    by blast
  have d: "drop 5 ?b = m_chapter m @ m_type m @ m_number m @ ?v m"
    by (subst b) (simp add: l)
  define info where "info = \<lparr>programId = ''Chapt'' @ m_chapter m @ m_type m @ m_number m @ ?v m,
           chapterDir = ''chapter'' @ m_chapter m,
           chapterNum = m_chapter m,
           ptype = m_type m,
           number = m_number m,
           variant = ?v m,
           displayName = ''Chapter '' @ m_chapter m @ '' - '' @ m_type m @ '' '' @ m_number m
                         @ (case m_variant m of None \<Rightarrow> [] | Some v \<Rightarrow> toUpperCase v),
           chapterDisplay = parseInt (m_chapter m),
           isUtility = False\<rparr>"
  have e: "extractProgramInfo fn = Some info"
    unfolding info_def by (rule matched_program_info [OF m])
  have f: "chapterNum info = m_chapter m" "ptype info = m_type m" "number info = m_number m"
    "variant info = ?v m"
    by (simp_all add: info_def)
  have u: "\<not> isUtility info" by (simp add: info_def)
  have p: "programId info = ''Chapt'' @ drop 5 ?b"
    unfolding d by (simp add: info_def)
  have dn: "displayName info = ''Chapter '' @ m_chapter m @ '' - '' @ m_type m @ '' '' @ m_number m
                         @ toUpperCase (?v m)"
    by (simp add: info_def toUpperCase_variant)
  have "search_pattern (programId info) = Some m"
    unfolding p by (rule search_pattern_Chapt [OF mh])
  then have lab: "extractLabelFromProgramId (programId info)
      = m_type m @ '' '' @ m_number m @ toUpperCase (?v m)"
    unfolding extractLabelFromProgramId_def by (simp add: toUpperCase_variant)
  show ?thesis
  proof (intro exI [of _ info] conjI)
    show "extractProgramInfo fn = Some info" by (rule e)
    show "\<not> isUtility info" by (rule u)
    show "programId info = ''Chapt'' @ drop 5 ?b" by (rule p)
    show "drop 5 ?b = chapterNum info @ ptype info @ number info @ variant info"
      unfolding f by (rule d)
    show "displayName info = ''Chapter '' @ chapterNum info @ '' - '' @ ptype info @ '' ''
         @ number info @ toUpperCase (variant info)"
      unfolding f by (rule dn)
    show "extractLabelFromProgramId (programId info)
         = ptype info @ '' '' @ number info @ toUpperCase (variant info)"
      unfolding f by (rule lab)
  qed
qed

theorem programId_as_written_witness:
  "PROGRAM_PATTERN (basename_ext ''chapt5exercise5a.tex'' (extname ''chapt5exercise5a.tex'')) \<noteq> None
   \<and> (\<exists>info. extractProgramInfo ''chapt5exercise5a.tex'' = Some info
     \<and> \<not> isUtility info
     \<and> programId info
         = ''Chapt'' @ drop 5 (basename_ext ''chapt5exercise5a.tex'' (extname ''chapt5exercise5a.tex''))
     \<and> drop 5 (basename_ext ''chapt5exercise5a.tex'' (extname ''chapt5exercise5a.tex''))
         = chapterNum info @ ptype info @ number info @ variant info
     \<and> displayName info = ''Chapter '' @ chapterNum info @ '' - '' @ ptype info @ '' ''
         @ number info @ toUpperCase (variant info)
     \<and> extractLabelFromProgramId (programId info)
         = ptype info @ '' '' @ number info @ toUpperCase (variant info))"
proof -
  have h: "PROGRAM_PATTERN (basename_ext ''chapt5exercise5a.tex'' (extname ''chapt5exercise5a.tex'')) \<noteq> None"
    by code_simp
  from h programId_as_written [OF h] show ?thesis by (rule conjI)
qed

text \<open>
  C4 as stated fails: \<open>chapt5exercise5a\<close> gets the program id \<open>Chapt5exercise5a\<close>, with
  the discriminator in lower case as written (display name ending in \<open>5A\<close>), and an
  uppercase discriminator or variant stays uppercase in the id.
\<close>

theorem programId_not_normalised:
  "extractProgramInfo ''chapt5exercise5a.m'' =
     Some \<lparr>programId = ''Chapt5exercise5a'', chapterDir = ''chapter5'', chapterNum = ''5'',
           ptype = ''exercise'', number = ''5'', variant = ''a'',
           displayName = ''Chapter 5 - exercise 5A'', chapterDisplay = Some 5,
           isUtility = False\<rparr>
   \<and> extractLabelFromProgramId ''Chapt5exercise5a'' = ''exercise 5A''
   \<and> map_option programId (extractProgramInfo ''Chapt2FIG3B.pdf'') = Some ''Chapt2FIG3B''"
  by code_simp

end
